theory Spec2Isabelle
  imports Complex_Main "HOL-Library.Sublist"
begin

section \<open>Strings of the host language\<close>

text \<open>
  A JavaScript string is modelled as a \<^typ>\<open>string\<close>: a list of code units, of which
  only the 8-bit ones occur. \<open>length\<close> is the \<open>.length\<close> of the source. The helpers
  below are the string methods the crawler calls, on that representation.
\<close>

definition startsWith :: "string \<Rightarrow> string \<Rightarrow> bool" where
  "startsWith s p = prefix p s"

definition endsWith :: "string \<Rightarrow> string \<Rightarrow> bool" where
  "endsWith s p = prefix (rev p) (rev s)"

fun str_includes :: "string \<Rightarrow> string \<Rightarrow> bool" where
  "str_includes [] p = (p = [])"
| "str_includes (x # xs) p = (prefix p (x # xs) \<or> str_includes xs p)"

text \<open>
  \<open>toLowerCase\<close> on 8-bit code units: the ASCII capitals and the capitals of the
  Latin-1 block (0xC0 to 0xDE without the multiplication sign) move up by 32. A
  case-insensitive regular expression without the \<open>u\<close> flag never identifies an ASCII
  character with a non-ASCII one, so it folds the ASCII capitals only.
\<close>

definition lower_char :: "char \<Rightarrow> char" where
  "lower_char c =
     (let n = of_char c :: nat in
      if (65 \<le> n \<and> n \<le> 90) \<or> (192 \<le> n \<and> n \<le> 222 \<and> n \<noteq> 215) then char_of (n + 32) else c)"

definition toLowerCase :: "string \<Rightarrow> string" where
  "toLowerCase s = map lower_char s"

definition fold_char :: "char \<Rightarrow> char" where
  "fold_char c =
     (let n = of_char c :: nat in
      if 65 \<le> n \<and> n \<le> 90 then char_of (n + 32) else c)"

definition fold_case :: "string \<Rightarrow> string" where
  "fold_case s = map fold_char s"

definition is_space :: "char \<Rightarrow> bool" where
  "is_space c = (c \<in> set [CHR 0x09, CHR 0x0A, CHR 0x0B, CHR 0x0C, CHR 0x0D, CHR 0x20, CHR 0xA0])"

definition trim :: "string \<Rightarrow> string" where
  "trim s = rev (dropWhile is_space (rev (dropWhile is_space s)))"

text \<open>\<open>split\<close> at every character that satisfies \<open>sep\<close>; the result is never empty.\<close>

fun split_where :: "(char \<Rightarrow> bool) \<Rightarrow> string \<Rightarrow> string list" where
  "split_where sep [] = [[]]"
| "split_where sep (x # xs) =
     (if sep x then [] # split_where sep xs
      else (case split_where sep xs of
              [] \<Rightarrow> [[x]]
            | y # ys \<Rightarrow> (x # y) # ys))"

text \<open>\<open>s.replace(pat, rep)\<close> with a string pattern: the first occurrence only.\<close>

fun replace_first :: "string \<Rightarrow> string \<Rightarrow> string \<Rightarrow> string" where
  "replace_first pat rep [] = (if pat = [] then rep else [])"
| "replace_first pat rep (x # xs) =
     (if prefix pat (x # xs) then rep @ drop (length pat) (x # xs)
      else x # replace_first pat rep xs)"

definition line_terminator :: "char \<Rightarrow> bool" where
  "line_terminator c = (c = CHR 0x0A \<or> c = CHR 0x0D)"

section \<open>Numbers and regular expressions of the host language\<close>

text \<open>
  A JavaScript number is \<open>NaN\<close>, one of the infinities, or a finite value, taken as a
  rational. \<open>js_lt a b\<close> is \<open>a < b\<close> and \<open>js_le a b\<close> is \<open>a <= b\<close>: both are false
  as soon as one side is \<open>NaN\<close>. A count or a length enters a comparison by \<open>num\<close>.
\<close>

datatype number = NaN | Infinity | NegInfinity | Num rat

definition js_lt :: "number \<Rightarrow> number \<Rightarrow> bool" where
  "js_lt a b =
     (case (a, b) of
        (Num x, Num y) \<Rightarrow> x < y
      | (Num x, Infinity) \<Rightarrow> True
      | (NegInfinity, Num y) \<Rightarrow> True
      | (NegInfinity, Infinity) \<Rightarrow> True
      | _ \<Rightarrow> False)"

definition js_le :: "number \<Rightarrow> number \<Rightarrow> bool" where
  "js_le a b = (js_lt a b \<or> (a = b \<and> a \<noteq> NaN))"

definition num :: "nat \<Rightarrow> number" where
  "num n = Num (of_nat n)"

text \<open>\<open>Math.min(a, b)\<close>.\<close>

definition js_min :: "number \<Rightarrow> number \<Rightarrow> number" where
  "js_min a b = (if a = NaN \<or> b = NaN then NaN else if js_lt b a then b else a)"

text \<open>
  \<open>xs.slice(0, n)\<close>: the end is \<open>n\<close> cut to an integer towards zero (\<open>NaN\<close> counts as
  0), and a negative end counts from the end of the list.
\<close>

definition slice_to :: "number \<Rightarrow> 'a list \<Rightarrow> 'a list" where
  "slice_to n xs =
     (case n of
        NaN \<Rightarrow> []
      | Infinity \<Rightarrow> xs
      | NegInfinity \<Rightarrow> []
      | Num q \<Rightarrow>
          let r = (if q < 0 then \<lceil>q\<rceil> else \<lfloor>q\<rfloor>)
          in if r < 0 then take (length xs - nat (- r)) xs else take (nat r) xs)"

text \<open>
  A \<open>RegExp\<close> object. With the \<open>g\<close> or the \<open>y\<close> flag (\<open>advancing\<close>) its method
  \<open>test\<close> starts at \<open>lastIndex\<close> and moves it: to the end of the match it finds, or
  back to 0 when it finds none. Without these flags it starts at 0 and leaves the object
  as it is. The matching itself is the engine's: \<open>exec_at i s\<close> is the end of the match
  found in \<open>s\<close> when started at \<open>i\<close>, if there is one.
\<close>

record RegExp =
  advancing :: bool
  lastIndex :: nat
  exec_at :: "nat \<Rightarrow> string \<Rightarrow> nat option"

definition regexp_test :: "RegExp \<Rightarrow> string \<Rightarrow> bool \<times> RegExp" where
  "regexp_test re s =
     (if advancing re then
        (if lastIndex re > length s then (False, re\<lparr>lastIndex := 0\<rparr>)
         else (case exec_at re (lastIndex re) s of
                 None \<Rightarrow> (False, re\<lparr>lastIndex := 0\<rparr>)
               | Some e \<Rightarrow> (True, re\<lparr>lastIndex := e\<rparr>)))
      else (exec_at re 0 s \<noteq> None, re))"

section \<open>The platform\<close>

text \<open>
  The WHATWG \<open>URL\<close> class, \<open>URLSearchParams.toString\<close>, \<open>parseFloat\<close> and the
  text of the elements a cheerio selector finds are library code, not code of the
  repository. They are parameters of the model: every theorem below holds for any choice
  of them. A parsed URL carries the fields the crawler reads; \<open>newURL\<close> is \<open>None\<close>
  where the constructor throws.
\<close>

record URL =
  origin :: string
  hostname :: string
  pathname :: string
  search :: string
  searchParams :: "(string \<times> string) list"

record platform =
  newURL :: "string \<Rightarrow> URL option"
  params_toString :: "(string \<times> string) list \<Rightarrow> string"
  parseFloat :: "string \<Rightarrow> rat option"
  cheerio_text :: "string \<Rightarrow> string \<Rightarrow> string list"

datatype error = TypeError | Error string

text \<open>The answer of one HTTP request: the \<open>ok\<close> flag and the body, whose reading may fail.\<close>

record response =
  ok :: bool
  text_body :: "error + string"

type_synonym network = "string \<Rightarrow> error + response"

section \<open>robots.ts\<close>

record RobotsRule =
  userAgent :: string
  allow :: "string list"
  disallow :: "string list"
  crawlDelay :: "rat option"

record RobotsParser =
  rules :: "string \<rightharpoonup> RobotsRule list"
  sitemaps :: "string \<rightharpoonup> string list"

definition new_RobotsParser :: RobotsParser where
  "new_RobotsParser = \<lparr>rules = Map.empty, sitemaps = Map.empty\<rparr>"

text \<open>
  The loop of \<open>parseRobotsTxt\<close> keeps three variables: the finished rule blocks, the
  sitemap URLs and the block being filled. One line of the file updates them.
\<close>

record robots_acc =
  acc_rules :: "RobotsRule list"
  acc_sitemaps :: "string list"
  currentRule :: "RobotsRule option"

definition robots_line :: "platform \<Rightarrow> robots_acc \<Rightarrow> string \<Rightarrow> robots_acc" where
  "robots_line api acc line =
     (let trimmed = trim line in
      if trimmed = [] \<or> startsWith trimmed ''#'' then acc
      else if CHR '':'' \<notin> set trimmed then acc
      else
        let directive = trim (toLowerCase (takeWhile (\<lambda>c. c \<noteq> CHR '':'') trimmed));
            val = trim (drop 1 (dropWhile (\<lambda>c. c \<noteq> CHR '':'') trimmed))
        in
        if directive = ''user-agent'' then
          acc\<lparr>acc_rules := (case currentRule acc of
                               None \<Rightarrow> acc_rules acc
                             | Some r \<Rightarrow> acc_rules acc @ [r]),
              currentRule := Some \<lparr>userAgent = toLowerCase val, allow = [],
                                   disallow = [], crawlDelay = None\<rparr>\<rparr>
        else if directive = ''allow'' then
          (case currentRule acc of
             Some r \<Rightarrow> if val \<noteq> [] then acc\<lparr>currentRule := Some (r\<lparr>allow := allow r @ [val]\<rparr>)\<rparr>
                       else acc
           | None \<Rightarrow> acc)
        else if directive = ''disallow'' then
          (case currentRule acc of
             Some r \<Rightarrow> if val \<noteq> [] then acc\<lparr>currentRule := Some (r\<lparr>disallow := disallow r @ [val]\<rparr>)\<rparr>
                       else acc
           | None \<Rightarrow> acc)
        else if directive = ''crawl-delay'' then
          (case currentRule acc of
             Some r \<Rightarrow> (case parseFloat api val of
                          Some d \<Rightarrow> acc\<lparr>currentRule := Some (r\<lparr>crawlDelay := Some d\<rparr>)\<rparr>
                        | None \<Rightarrow> acc)
           | None \<Rightarrow> acc)
        else if directive = ''sitemap'' then
          (if val \<noteq> [] then acc\<lparr>acc_sitemaps := acc_sitemaps acc @ [val]\<rparr> else acc)
        else acc)"

definition parseRobotsTxt :: "platform \<Rightarrow> string \<Rightarrow> string \<Rightarrow> RobotsParser \<Rightarrow> RobotsParser" where
  "parseRobotsTxt api host txt st =
     (let acc = foldl (robots_line api)
                  \<lparr>acc_rules = [], acc_sitemaps = [], currentRule = None\<rparr>
                  (split_where (\<lambda>c. c = CHR 0x0A) txt);
          rs = (case currentRule acc of
                  None \<Rightarrow> acc_rules acc
                | Some r \<Rightarrow> acc_rules acc @ [r])
      in st\<lparr>rules := (rules st)(host \<mapsto> rs),
            sitemaps := (sitemaps st)(host \<mapsto> acc_sitemaps acc)\<rparr>)"

text \<open>
  \<open>parse\<close> runs in two parts, with the request for \<open>{origin}/robots.txt\<close> between
  them. \<open>robots_begin\<close> is the part before the request: it fails on a URL that does not
  parse (the \<open>catch\<close> handler parses it again and throws), returns nothing to request
  when the host has rules already, and the address and the host otherwise.
  \<open>robots_finish\<close> is the part after the answer: every failure records an empty rule
  list for the host.
\<close>

definition robots_begin :: "platform \<Rightarrow> RobotsParser \<Rightarrow> string \<Rightarrow> error + (string \<times> string) option" where
  "robots_begin api st u =
     (case newURL api u of
        None \<Rightarrow> Inl TypeError
      | Some parsedUrl \<Rightarrow>
          let robotsUrl = origin parsedUrl @ ''/robots.txt'';
              host = hostname parsedUrl
          in if rules st host \<noteq> None then Inr None else Inr (Some (robotsUrl, host)))"

definition robots_finish :: "platform \<Rightarrow> RobotsParser \<Rightarrow> string \<Rightarrow> error + response \<Rightarrow> RobotsParser" where
  "robots_finish api st host answer =
     (case answer of
        Inl e \<Rightarrow> st\<lparr>rules := (rules st)(host \<mapsto> [])\<rparr>
      | Inr resp \<Rightarrow>
          if \<not> ok resp then st\<lparr>rules := (rules st)(host \<mapsto> [])\<rparr>
          else (case text_body resp of
                  Inl e \<Rightarrow> st\<lparr>rules := (rules st)(host \<mapsto> [])\<rparr>
                | Inr txt \<Rightarrow> parseRobotsTxt api host txt st))"

definition robots_parse :: "platform \<Rightarrow> network \<Rightarrow> RobotsParser \<Rightarrow> string \<Rightarrow> error + RobotsParser" where
  "robots_parse api net st u =
     (case robots_begin api st u of
        Inl e \<Rightarrow> Inl e
      | Inr None \<Rightarrow> Inr st
      | Inr (Some (robotsUrl, host)) \<Rightarrow> Inr (robots_finish api st host (net robotsUrl)))"

text \<open>
  \<open>pathMatches\<close> builds a regular expression from the pattern: every character that
  is special in a regular expression is escaped, so it stands for itself, and each
  \<open>*\<close> becomes \<open>.*\<close>. The expression is therefore a sequence of literal characters
  and \<open>.*\<close>, anchored at the start, and at the end when the pattern ended in \<open>$\<close>.
  Such an expression always compiles, so the \<open>catch\<close> branch of the source is never
  taken. \<open>.\<close> matches any character but a line terminator.
\<close>

datatype rx = Lit char | AnyStar

definition to_rx :: "string \<Rightarrow> rx list" where
  "to_rx p = map (\<lambda>c. if c = CHR ''*'' then AnyStar else Lit c) p"

fun rx_match :: "rx list \<Rightarrow> bool \<Rightarrow> string \<Rightarrow> bool" where
  "rx_match [] anchored s = (if anchored then s = [] else True)"
| "rx_match (Lit c # ts) anchored [] = False"
| "rx_match (Lit c # ts) anchored (x # xs) = (x = c \<and> rx_match ts anchored xs)"
| "rx_match (AnyStar # ts) anchored [] = rx_match ts anchored []"
| "rx_match (AnyStar # ts) anchored (x # xs) =
     (rx_match ts anchored (x # xs) \<or>
      (\<not> line_terminator x \<and> rx_match (AnyStar # ts) anchored xs))"

definition pathMatches :: "string \<Rightarrow> string \<Rightarrow> bool" where
  "pathMatches path pat =
     (if pat = ''/'' then True
      else
        let hasEndAnchor = endsWith pat ''$'';
            patternToConvert = (if hasEndAnchor then butlast pat else pat)
        in rx_match (to_rx patternToConvert) hasEndAnchor path)"

record Match =
  pattern :: string
  isAllow :: bool

definition rule_matches :: "string \<Rightarrow> RobotsRule \<Rightarrow> Match list" where
  "rule_matches path r =
     map (\<lambda>a. \<lparr>pattern = a, isAllow = True\<rparr>) (filter (pathMatches path) (allow r)) @
     map (\<lambda>d. \<lparr>pattern = d, isAllow = False\<rparr>) (filter (pathMatches path) (disallow r))"

definition collect_matches :: "string \<Rightarrow> RobotsRule list \<Rightarrow> Match list" where
  "collect_matches path matchingRules = concat (map (rule_matches path) matchingRules)"

definition matching_rules :: "string \<Rightarrow> RobotsRule list \<Rightarrow> RobotsRule list" where
  "matching_rules ua hostRules =
     filter (\<lambda>r. userAgent r = toLowerCase ua \<or> userAgent r = ''*'') hostRules"

text \<open>The function handed to \<open>reduce\<close>.\<close>

definition longer :: "Match \<Rightarrow> Match \<Rightarrow> Match" where
  "longer best current =
     (if length (pattern current) > length (pattern best) then current
      else if length (pattern current) = length (pattern best) \<and> isAllow current then current
      else best)"

definition isAllowed :: "platform \<Rightarrow> RobotsParser \<Rightarrow> string \<Rightarrow> string \<Rightarrow> bool" where
  "isAllowed api st u ua =
     (case newURL api u of
        None \<Rightarrow> True
      | Some parsedUrl \<Rightarrow>
          let host = hostname parsedUrl;
              path = pathname parsedUrl @ search parsedUrl
          in
          (case rules st host of
             None \<Rightarrow> True
           | Some hostRules \<Rightarrow>
               if hostRules = [] then True
               else
                 let matchingRules = matching_rules ua hostRules in
                 if matchingRules = [] then True
                 else (case collect_matches path matchingRules of
                         [] \<Rightarrow> True
                       | m # ms \<Rightarrow> isAllow (foldl longer m ms))))"

definition getSitemaps :: "platform \<Rightarrow> RobotsParser \<Rightarrow> string \<Rightarrow> string list" where
  "getSitemaps api st u =
     (case newURL api u of
        None \<Rightarrow> []
      | Some parsedUrl \<Rightarrow>
          (case sitemaps st (hostname parsedUrl) of
             None \<Rightarrow> []
           | Some l \<Rightarrow> l))"

section \<open>detector.ts\<close>

datatype BlockReason =
  cloudflare | datadome | captcha | rate_limit | forbidden | empty_body
  | javascript_required | access_denied

record BlockCheck =
  blocked :: bool
  reason :: "BlockReason option"
  confidence :: rat

text \<open>
  The regular expressions of the detector are plain texts, with or without the \<open>i\<close>
  flag, and one of the form \<open>/a.*b/i\<close>. \<open>marker_test\<close> is \<open>RegExp.test\<close> on them: a
  search for the text anywhere in the body.
\<close>

datatype marker = Sens string | Insens string | InsensGap string string

fun after_gap :: "string \<Rightarrow> string \<Rightarrow> bool" where
  "after_gap b [] = (b = [])"
| "after_gap b (x # xs) =
     (prefix b (x # xs) \<or> (\<not> line_terminator x \<and> after_gap b xs))"

fun gap_search :: "string \<Rightarrow> string \<Rightarrow> string \<Rightarrow> bool" where
  "gap_search a b [] = (a = [] \<and> b = [])"
| "gap_search a b (x # xs) =
     ((prefix a (x # xs) \<and> after_gap b (drop (length a) (x # xs))) \<or> gap_search a b xs)"

fun marker_test :: "marker \<Rightarrow> string \<Rightarrow> bool" where
  "marker_test (Sens p) body = str_includes body p"
| "marker_test (Insens p) body = str_includes (fold_case body) (fold_case p)"
| "marker_test (InsensGap a b) body = gap_search (fold_case a) (fold_case b) (fold_case body)"

definition CLOUDFLARE_PATTERNS :: "marker list" where
  "CLOUDFLARE_PATTERNS =
     [Insens ''Checking your browser'', Insens ''cf-browser-verification'',
      Insens ''cloudflare'', Sens ''_cf_chl_opt'', Insens ''challenge-platform'',
      Insens ''Just a moment...'', Insens ''ray id:'', Insens ''cf-turnstile'']"

definition DATADOME_PATTERNS :: "marker list" where
  "DATADOME_PATTERNS =
     [Insens ''datadome'', Sens ''dd.js'', Sens ''captcha-delivery.com'',
      Sens ''geo.captcha-delivery.com'']"

definition PERIMETERX_PATTERNS :: "marker list" where
  "PERIMETERX_PATTERNS =
     [Insens ''perimeterx'', Insens ''px-captcha'', Sens ''_pxhd'', Insens ''human challenge'']"

definition AKAMAI_PATTERNS :: "marker list" where
  "AKAMAI_PATTERNS = [Insens ''akamai'', Sens ''ak_bmsc'', Sens ''_abck'']"

definition BOT_DETECTION_PATTERNS :: "marker list" where
  "BOT_DETECTION_PATTERNS =
     [Insens ''access denied'', Insens ''please verify you are human'',
      Insens ''enable javascript'', InsensGap ''browser'' ''not supported'',
      Insens ''automated access'', Insens ''bot detected'',
      Insens ''please complete the security check'', Insens ''unusual traffic'',
      Insens ''blocked'', Insens ''forbidden'', Insens ''not allowed'']"

definition CAPTCHA_PATTERNS :: "marker list" where
  "CAPTCHA_PATTERNS =
     [Insens ''recaptcha'', Insens ''hcaptcha'', Sens ''g-recaptcha'', Sens ''h-captcha'',
      Insens ''captcha'', Insens ''turnstile'']"

text \<open>\<open>ps.filter((p) => p.test(body)).length\<close> and \<open>ps.some((p) => p.test(body))\<close>.\<close>

definition matched :: "marker list \<Rightarrow> string \<Rightarrow> nat" where
  "matched ps body = length (filter (\<lambda>p. marker_test p body) ps)"

definition some_match :: "marker list \<Rightarrow> string \<Rightarrow> bool" where
  "some_match ps body = (\<exists>p\<in>set ps. marker_test p body)"

definition isBlocked :: "string \<Rightarrow> int \<Rightarrow> string \<Rightarrow> BlockCheck" where
  "isBlocked body statusCode u =
     (if statusCode = 403 then \<lparr>blocked = True, reason = Some forbidden, confidence = 9 / 10\<rparr>
      else if statusCode = 429 then
        \<lparr>blocked = True, reason = Some rate_limit, confidence = 95 / 100\<rparr>
      else if statusCode = 503 \<and> some_match CLOUDFLARE_PATTERNS body then
        \<lparr>blocked = True, reason = Some cloudflare, confidence = 95 / 100\<rparr>
      else if (body = [] \<or> length body < 500) \<and> body \<noteq> [] \<and>
              (str_includes body ''challenge'' \<or> str_includes body ''captcha'') then
        \<lparr>blocked = True, reason = Some empty_body, confidence = 7 / 10\<rparr>
      else if matched CLOUDFLARE_PATTERNS body \<ge> 2 then
        \<lparr>blocked = True, reason = Some cloudflare, confidence = 9 / 10\<rparr>
      else if matched DATADOME_PATTERNS body \<ge> 2 \<and> length body < 50000 then
        \<lparr>blocked = True, reason = Some datadome, confidence = 9 / 10\<rparr>
      else if some_match PERIMETERX_PATTERNS body \<and> length body < 50000 then
        \<lparr>blocked = True, reason = Some access_denied, confidence = 85 / 100\<rparr>
      else if matched AKAMAI_PATTERNS body \<ge> 2 \<and> length body < 50000 then
        \<lparr>blocked = True, reason = Some access_denied, confidence = 8 / 10\<rparr>
      else if matched CAPTCHA_PATTERNS body \<ge> 2 \<and> length body < 10000 then
        \<lparr>blocked = True, reason = Some captcha, confidence = 85 / 100\<rparr>
      else if some_match BOT_DETECTION_PATTERNS body \<and> length body < 3000 then
        \<lparr>blocked = True, reason = Some access_denied, confidence = 7 / 10\<rparr>
      else if str_includes body ''noscript'' \<and>
              (str_includes body ''enable javascript'' \<or>
               str_includes body ''JavaScript is required'') \<and>
              \<not> str_includes body ''<article'' \<and> \<not> str_includes body ''<main'' \<and>
              length body < 5000 then
        \<lparr>blocked = True, reason = Some javascript_required, confidence = 6 / 10\<rparr>
      else \<lparr>blocked = False, reason = None, confidence = 0\<rparr>)"

definition KNOWN_PROTECTED_DOMAINS :: "string list" where
  "KNOWN_PROTECTED_DOMAINS =
     [''linkedin.com'', ''instagram.com'', ''facebook.com'', ''twitter.com'', ''x.com'',
      ''tiktok.com'', ''indeed.com'', ''glassdoor.com'', ''zillow.com'', ''yelp.com'']"

definition needsBrowser :: "platform \<Rightarrow> string \<Rightarrow> bool" where
  "needsBrowser api u =
     (case newURL api u of
        None \<Rightarrow> False
      | Some parsedUrl \<Rightarrow>
          let host = replace_first ''www.'' [] (hostname parsedUrl) in
          host \<in> set KNOWN_PROTECTED_DOMAINS \<or>
          (\<exists>d\<in>set KNOWN_PROTECTED_DOMAINS. endsWith host (''.'' @ d)))"

section \<open>engine/index.ts\<close>

datatype EngineName = Fetch | Playwright | Rebrowser

record FetchResult =
  html :: string
  statusCode :: int
  finalUrl :: string

text \<open>
  \<open>EngineResult\<close>: the fields \<open>blocked\<close> and \<open>blockReason\<close> of the source are
  \<open>res_blocked\<close> and \<open>res_blockReason\<close> here, \<open>blocked\<close> being a field of
  \<open>BlockCheck\<close> already.
\<close>

record EngineResult = FetchResult +
  engine :: EngineName
  res_blocked :: bool
  res_blockReason :: "BlockReason option"

record EngineOptions =
  eo_timeout :: "nat option"
  eo_forceEngine :: "EngineName option"
  authStatePath :: "string option"

record EngineStats =
  n_fetch :: nat
  n_playwright :: nat
  n_rebrowser :: nat
  n_blocked :: nat

record EngineConfig =
  name :: EngineName
  cfg_timeout :: nat

definition ENGINES :: "EngineConfig list" where
  "ENGINES =
     [\<lparr>name = Fetch, cfg_timeout = 5000\<rparr>,
      \<lparr>name = Playwright, cfg_timeout = 15000\<rparr>,
      \<lparr>name = Rebrowser, cfg_timeout = 30000\<rparr>]"

text \<open>
  What the waterfall cannot decide by itself, during one call of \<open>fetch\<close>: the answer
  of each engine (an engine is called at most once per call), whether the browser runtime
  is found when an engine is about to be used, and whether installing it works.
\<close>

record engines_env =
  engine_fetch :: "EngineName \<Rightarrow> string \<Rightarrow> EngineOptions \<Rightarrow> error + FetchResult"
  isPlaywrightInstalled :: "EngineName \<Rightarrow> bool"
  installBrowser :: bool

text \<open>
  The state of an \<open>EngineWaterfall\<close>. Two fields are not in the source, they record
  what the waterfall did: \<open>tried\<close> lists, in order, the strategies handed to
  \<open>fetchWithEngine\<close>, and \<open>called\<close> the engines whose \<open>fetch\<close> method ran.
\<close>

record EngineWaterfall =
  engines :: "EngineName list"
  stats :: EngineStats
  browserInstallPromise :: "bool option"
  tried :: "EngineName list"
  called :: "EngineName list"

definition new_EngineWaterfall :: EngineWaterfall where
  "new_EngineWaterfall =
     \<lparr>engines = [],
      stats = \<lparr>n_fetch = 0, n_playwright = 0, n_rebrowser = 0, n_blocked = 0\<rparr>,
      browserInstallPromise = None, tried = [], called = []\<rparr>"

definition ensureBrowserInstalled :: "engines_env \<Rightarrow> EngineWaterfall \<Rightarrow> EngineName \<Rightarrow> bool \<times> EngineWaterfall" where
  "ensureBrowserInstalled env w e =
     (if isPlaywrightInstalled env e then (True, w)
      else (case browserInstallPromise w of
              Some b \<Rightarrow> (b, w)
            | None \<Rightarrow> (installBrowser env, w\<lparr>browserInstallPromise := Some (installBrowser env)\<rparr>)))"

definition call_engine :: "engines_env \<Rightarrow> EngineWaterfall \<Rightarrow> string \<Rightarrow> EngineName \<Rightarrow> EngineOptions \<Rightarrow> (error + EngineResult) \<times> EngineWaterfall" where
  "call_engine env w u e opts =
     (let w1 = w\<lparr>engines := (if e \<in> set (engines w) then engines w else engines w @ [e]),
                   called := called w @ [e]\<rparr>
      in case engine_fetch env e u opts of
           Inl err \<Rightarrow> (Inl err, w1)
         | Inr r \<Rightarrow>
             let blockCheck = isBlocked (html r) (statusCode r) u
             in (Inr \<lparr>html = html r, statusCode = statusCode r, finalUrl = finalUrl r,
                      engine = e, res_blocked = blocked blockCheck,
                      res_blockReason = reason blockCheck\<rparr>, w1))"

definition fetchWithEngine :: "engines_env \<Rightarrow> EngineWaterfall \<Rightarrow> string \<Rightarrow> EngineName \<Rightarrow> EngineOptions \<Rightarrow> (error + EngineResult) \<times> EngineWaterfall" where
  "fetchWithEngine env w u e opts =
     (let w0 = w\<lparr>tried := tried w @ [e]\<rparr> in
      if e = Playwright \<or> e = Rebrowser then
        (case ensureBrowserInstalled env w0 e of
           (False, w') \<Rightarrow> (Inl (Error ''Browser not available''), w')
         | (True, w') \<Rightarrow> call_engine env w' u e opts)
      else call_engine env w0 u e opts)"

definition count_engine :: "EngineName \<Rightarrow> EngineStats \<Rightarrow> EngineStats" where
  "count_engine e s =
     (case e of
        Fetch \<Rightarrow> s\<lparr>n_fetch := n_fetch s + 1\<rparr>
      | Playwright \<Rightarrow> s\<lparr>n_playwright := n_playwright s + 1\<rparr>
      | Rebrowser \<Rightarrow> s\<lparr>n_rebrowser := n_rebrowser s + 1\<rparr>)"

text \<open>The options an engine of the loop is called with: \<open>options.timeout || engineConfig.timeout\<close>.\<close>

definition with_timeout :: "EngineOptions \<Rightarrow> EngineConfig \<Rightarrow> EngineOptions" where
  "with_timeout opts engineConfig =
     opts\<lparr>eo_timeout := Some (case eo_timeout opts of
                                None \<Rightarrow> cfg_timeout engineConfig
                              | Some n \<Rightarrow> if n = 0 then cfg_timeout engineConfig else n)\<rparr>"

text \<open>The loop over \<open>enginesToTry\<close>, and what follows it when no engine returned.\<close>

fun try_engines :: "engines_env \<Rightarrow> EngineWaterfall \<Rightarrow> string \<Rightarrow> EngineOptions \<Rightarrow> EngineConfig list \<Rightarrow> (error + EngineResult) \<times> EngineWaterfall" where
  "try_engines env w u opts [] =
     (Inl (Error (''All engines failed for '' @ u)),
      w\<lparr>stats := (stats w)\<lparr>n_blocked := n_blocked (stats w) + 1\<rparr>\<rparr>)"
| "try_engines env w u opts (engineConfig # rest) =
     (case fetchWithEngine env w u (name engineConfig) (with_timeout opts engineConfig) of
        (Inr result, w') \<Rightarrow>
          if \<not> res_blocked result
          then (Inr result, w'\<lparr>stats := count_engine (name engineConfig) (stats w')\<rparr>)
          else try_engines env w' u opts rest
      | (Inl err, w') \<Rightarrow> try_engines env w' u opts rest)"

definition waterfall_fetch :: "platform \<Rightarrow> engines_env \<Rightarrow> EngineWaterfall \<Rightarrow> string \<Rightarrow> EngineOptions \<Rightarrow> (error + EngineResult) \<times> EngineWaterfall" where
  "waterfall_fetch api env w u opts =
     (case eo_forceEngine opts of
        Some e \<Rightarrow> fetchWithEngine env w u e opts
      | None \<Rightarrow>
          let startIndex = (if needsBrowser api u then 1 else 0 :: nat);
              enginesToTry = drop startIndex ENGINES
          in try_engines env w u opts enginesToTry)"

section \<open>sitemap.ts\<close>

record SitemapParser =
  cache :: "string \<rightharpoonup> string list"

definition new_SitemapParser :: SitemapParser where
  "new_SitemapParser = \<lparr>cache = Map.empty\<rparr>"

definition MAX_URLS :: nat where
  "MAX_URLS = 200"

definition fetchSitemap :: "network \<Rightarrow> string \<Rightarrow> string option" where
  "fetchSitemap net u =
     (case net u of
        Inl e \<Rightarrow> None
      | Inr resp \<Rightarrow>
          if \<not> ok resp then None
          else (case text_body resp of Inl e \<Rightarrow> None | Inr t \<Rightarrow> Some t))"

text \<open>
  \<open>parseSitemapIndex\<close> and \<open>parseUrlset\<close>: the text of every element the selector
  finds, trimmed, the empty ones left out.
\<close>

definition parseSitemapIndex :: "platform \<Rightarrow> string \<Rightarrow> string list" where
  "parseSitemapIndex api content =
     filter (\<lambda>loc. loc \<noteq> []) (map trim (cheerio_text api ''sitemap loc'' content))"

definition parseUrlset :: "platform \<Rightarrow> string \<Rightarrow> string list" where
  "parseUrlset api content =
     filter (\<lambda>loc. loc \<noteq> []) (map trim (cheerio_text api ''url loc'' content))"

text \<open>
  The loop over the first two entries of a sitemap index. It returns the URLs gathered
  and, in \<open>fetched\<close>, the child sitemaps it requested, in order.
\<close>

fun expand_index :: "platform \<Rightarrow> network \<Rightarrow> string list \<Rightarrow> string list \<Rightarrow> string list \<Rightarrow> string list \<times> string list" where
  "expand_index api net [] urls fetched = (urls, fetched)"
| "expand_index api net (indexUrl # rest) urls fetched =
     (if length urls \<ge> MAX_URLS then (urls, fetched)
      else (case fetchSitemap net indexUrl of
              None \<Rightarrow> expand_index api net rest urls (fetched @ [indexUrl])
            | Some subContent \<Rightarrow>
                if subContent = [] then expand_index api net rest urls (fetched @ [indexUrl])
                else
                  let subUrls = parseUrlset api subContent
                  in expand_index api net rest
                       (urls @ take (MAX_URLS - length urls) subUrls) (fetched @ [indexUrl])))"

definition parseSitemapContent :: "platform \<Rightarrow> network \<Rightarrow> string \<Rightarrow> string list \<times> string list" where
  "parseSitemapContent api net content =
     (if str_includes content ''<sitemapindex'' then
        (let indexUrls = parseSitemapIndex api content;
             (urls, fetched) = expand_index api net (take 2 indexUrls) [] []
         in (take MAX_URLS urls, fetched))
      else (take MAX_URLS (take MAX_URLS (parseUrlset api content)), []))"

definition sitemap_parseUrl :: "platform \<Rightarrow> network \<Rightarrow> string \<Rightarrow> string list" where
  "sitemap_parseUrl api net sitemapUrl =
     (case fetchSitemap net sitemapUrl of
        None \<Rightarrow> []
      | Some content \<Rightarrow>
          if content = [] then []
          else (case newURL api sitemapUrl of
                  None \<Rightarrow> []
                | Some parsedUrl \<Rightarrow> fst (parseSitemapContent api net content)))"

text \<open>The loop of \<open>parse\<close> over the well-known locations, with its \<open>break\<close>.\<close>

fun probe_locations :: "platform \<Rightarrow> network \<Rightarrow> string list \<Rightarrow> string list \<Rightarrow> string list" where
  "probe_locations api net [] urls = urls"
| "probe_locations api net (sitemapUrl # rest) urls =
     (case fetchSitemap net sitemapUrl of
        None \<Rightarrow> probe_locations api net rest urls
      | Some sitemapContent \<Rightarrow>
          if sitemapContent = [] then probe_locations api net rest urls
          else
            let urls' = urls @ fst (parseSitemapContent api net sitemapContent)
            in if length urls' > 0 then urls' else probe_locations api net rest urls')"

definition sitemap_parse :: "platform \<Rightarrow> network \<Rightarrow> SitemapParser \<Rightarrow> string \<Rightarrow> string list \<times> SitemapParser" where
  "sitemap_parse api net sp u =
     (case newURL api u of
        None \<Rightarrow> ([], sp)
      | Some parsedUrl \<Rightarrow>
          let host = hostname parsedUrl in
          (case cache sp host of
             Some cached \<Rightarrow> (cached, sp)
           | None \<Rightarrow>
               let urls = probe_locations api net
                            [origin parsedUrl @ ''/sitemap.xml'',
                             origin parsedUrl @ ''/sitemap_index.xml'',
                             origin parsedUrl @ ''/sitemap/sitemap.xml''] []
               in (urls, sp\<lparr>cache := (cache sp)(host \<mapsto> urls)\<rparr>)))"

section \<open>utils/url.ts\<close>

definition delete_params :: "string list \<Rightarrow> (string \<times> string) list \<Rightarrow> (string \<times> string) list" where
  "delete_params names ps = filter (\<lambda>(k, v). k \<notin> set names) ps"

definition normalizeUrl :: "platform \<Rightarrow> string \<Rightarrow> string" where
  "normalizeUrl api u =
     (case newURL api (if startsWith u ''http'' then u else ''https://'' @ u) of
        None \<Rightarrow> u
      | Some parsed \<Rightarrow>
          let path = (if endsWith (pathname parsed) ''/'' \<and> pathname parsed \<noteq> ''/''
                      then butlast (pathname parsed) else pathname parsed);
              ps = delete_params [''utm_source'', ''utm_medium'', ''utm_campaign'',
                                  ''utm_content'', ''utm_term'', ''ref'', ''fbclid'', ''gclid'']
                     (searchParams parsed);
              q = params_toString api ps
          in origin parsed @ path @ (if q = [] then [] else ''?'' @ q))"

definition getBaseDomain :: "platform \<Rightarrow> string \<Rightarrow> string" where
  "getBaseDomain api u =
     (case newURL api (if startsWith u ''http'' then u else ''https://'' @ u) of
        None \<Rightarrow> u
      | Some parsed \<Rightarrow>
          if startsWith (hostname parsed) ''www.'' then drop 4 (hostname parsed)
          else hostname parsed)"

definition SKIP_EXTENSIONS :: "string list" where
  "SKIP_EXTENSIONS =
     [''.pdf'', ''.jpg'', ''.jpeg'', ''.png'', ''.gif'', ''.svg'', ''.ico'', ''.webp'',
      ''.avif'', ''.css'', ''.js'', ''.mjs'', ''.cjs'', ''.ts'', ''.tsx'', ''.jsx'',
      ''.woff'', ''.woff2'', ''.ttf'', ''.eot'', ''.otf'', ''.mp4'', ''.mp3'',
      ''.wav'', ''.ogg'', ''.webm'', ''.avi'', ''.mov'', ''.zip'', ''.tar'', ''.gz'',
      ''.rar'', ''.7z'', ''.exe'', ''.dmg'', ''.pkg'', ''.deb'', ''.rpm'', ''.json'',
      ''.xml'', ''.yaml'', ''.yml'', ''.toml'', ''.doc'', ''.docx'', ''.xls'',
      ''.xlsx'', ''.ppt'', ''.pptx'']"

definition shouldSkipUrl :: "platform \<Rightarrow> string \<Rightarrow> bool" where
  "shouldSkipUrl api u =
     (case newURL api u of
        None \<Rightarrow> True
      | Some parsed \<Rightarrow>
          let pathname' = toLowerCase (pathname parsed) in
          if \<exists>ext\<in>set SKIP_EXTENSIONS. endsWith pathname' ext then True
          else if startsWith u ''mailto:'' \<or> startsWith u ''javascript:'' \<or> startsWith u ''tel:''
          then True
          else False)"

section \<open>utils/dedup.ts\<close>

definition LANGUAGE_CODES :: "string list" where
  "LANGUAGE_CODES =
     [''en'', ''de'', ''fr'', ''es'', ''it'', ''pt'', ''nl'', ''pl'', ''ru'', ''ja'',
      ''ko'', ''zh'', ''ar'', ''hi'', ''tr'', ''vi'', ''th'', ''id'', ''ms'', ''sv'',
      ''no'', ''da'', ''fi'', ''cs'', ''el'', ''he'', ''hu'', ''ro'', ''sk'', ''uk'',
      ''bg'', ''hr'', ''lt'', ''lv'', ''et'', ''sl'', ''bn'', ''ta'', ''te'', ''mr'',
      ''gu'', ''kn'', ''ml'', ''pa'', ''ur'', ''km'', ''lo'', ''ne'', ''si'', ''tl'',
      ''mn'', ''fa'', ''ps'', ''sq'', ''mk'', ''sr'', ''bs'', ''is'', ''mt'', ''cy'',
      ''ga'', ''eu'', ''gl'', ''sw'', ''am'', ''af'', ''ha'', ''yo'', ''ig'', ''zu'',
      ''az'', ''uz'', ''kk'', ''ka'', ''hy'', ''tg'']"

definition COUNTRY_CODES :: "string list" where
  "COUNTRY_CODES =
     [''us'', ''gb'', ''uk'', ''ca'', ''au'', ''nz'', ''ie'', ''de'', ''at'', ''ch'',
      ''fr'', ''be'', ''es'', ''it'', ''pt'', ''nl'', ''pl'', ''ru'', ''se'', ''no'',
      ''dk'', ''fi'', ''cz'', ''gr'', ''hu'', ''ro'', ''sk'', ''ua'', ''bg'', ''hr'',
      ''rs'', ''si'', ''lt'', ''lv'', ''ee'', ''jp'', ''kr'', ''cn'', ''tw'', ''hk'',
      ''sg'', ''my'', ''th'', ''vn'', ''ph'', ''mm'', ''kh'', ''la'', ''np'', ''lk'',
      ''bd'', ''pk'', ''in'', ''ae'', ''sa'', ''il'', ''eg'', ''ma'', ''dz'', ''tn'',
      ''lb'', ''jo'', ''kw'', ''qa'', ''bh'', ''om'', ''iq'', ''ir'', ''tr'', ''za'',
      ''ng'', ''ke'', ''gh'', ''tz'', ''ug'', ''et'', ''sn'', ''ci'', ''mx'', ''ar'',
      ''br'', ''co'', ''cl'', ''pe'', ''ec'', ''ve'', ''bo'', ''py'', ''uy'', ''cr'',
      ''pa'', ''gt'', ''hn'', ''ni'', ''cu'', ''do'', ''pr'', ''jm'']"

definition FALSE_POSITIVES :: "string list" where
  "FALSE_POSITIVES =
     [''us'', ''uk'', ''my'', ''in'', ''at'', ''be'', ''to'', ''do'', ''go'', ''so'',
      ''no'', ''id'', ''am'', ''is'', ''it'', ''me'', ''or'', ''as'', ''if'', ''an'',
      ''on'', ''up'', ''la'', ''ha'', ''pa'', ''om'']"

text \<open>\<open>LocaleInfo\<close>: the field \<open>locale\<close> of the source is \<open>locale_code\<close> here.\<close>

record LocaleInfo =
  hasLocale :: bool
  locale_code :: "string option"
  language :: "string option"
  country :: "string option"
  canonicalPath :: string

definition is_letter :: "char \<Rightarrow> bool" where
  "is_letter c = (fold_char c \<in> set ''abcdefghijklmnopqrstuvwxyz'')"

definition is_sep :: "char \<Rightarrow> bool" where
  "is_sep c = (c = CHR ''-'' \<or> c = CHR ''_'')"

text \<open>
  The regular expression \<open>\/([a-z]{2})([-_]([a-z]{2}))?(?=...)\<close> with the \<open>i\<close> flag,
  tried at the head of \<open>s\<close>. The optional group is tried first; when the lookahead
  fails behind it, the match is tried without the group. The lookahead is a slash,
  or the end of the input where \<open>at_end\<close> allows it. The result holds group 1,
  group 3 and the length of the match.
\<close>

definition lookahead :: "bool \<Rightarrow> string \<Rightarrow> bool" where
  "lookahead at_end r = (case r of [] \<Rightarrow> at_end | x # xs \<Rightarrow> x = CHR ''/'')"

definition locale_at :: "bool \<Rightarrow> string \<Rightarrow> (string \<times> string option \<times> nat) option" where
  "locale_at at_end s =
     (case s of
        c0 # a # b # r \<Rightarrow>
          if c0 = CHR ''/'' \<and> is_letter a \<and> is_letter b then
            (case r of
               sep # c # d # r' \<Rightarrow>
                 if is_sep sep \<and> is_letter c \<and> is_letter d \<and> lookahead at_end r'
                 then Some ([a, b], Some [c, d], 6)
                 else if lookahead at_end r then Some ([a, b], None, 3) else None
             | _ \<Rightarrow> if lookahead at_end r then Some ([a, b], None, 3) else None)
          else None
      | _ \<Rightarrow> None)"

text \<open>The leftmost match of the expression anywhere in the path, with its position.\<close>

fun locale_search :: "string \<Rightarrow> (nat \<times> string \<times> string option \<times> nat) option" where
  "locale_search [] = None"
| "locale_search (x # xs) =
     (case locale_at False (x # xs) of
        Some m \<Rightarrow> Some (0, m)
      | None \<Rightarrow> (case locale_search xs of
                   None \<Rightarrow> None
                 | Some (i, m) \<Rightarrow> Some (Suc i, m)))"

text \<open>\<open>path.replace(/^\/[a-z]{2}([-_][a-z]{2})?/i, "")\<close>: no lookahead here.\<close>

definition strip_locale_start :: "string \<Rightarrow> string" where
  "strip_locale_start s =
     (case s of
        c0 # a # b # r \<Rightarrow>
          if c0 = CHR ''/'' \<and> is_letter a \<and> is_letter b then
            (case r of
               sep # c # d # r' \<Rightarrow> if is_sep sep \<and> is_letter c \<and> is_letter d then r' else r
             | _ \<Rightarrow> r)
          else s
      | _ \<Rightarrow> s)"

text \<open>\<open>path.replace(/\/[a-z]{2}([-_][a-z]{2})?(?=\/)/i, "")\<close>: the leftmost match is cut out.\<close>

definition strip_locale_mid :: "string \<Rightarrow> string" where
  "strip_locale_mid s =
     (case locale_search s of
        None \<Rightarrow> s
      | Some (i, g1, g3, n) \<Rightarrow> take i s @ drop (i + n) s)"

text \<open>\<open>searchParams.get(name)\<close> where the value is then tested for truth.\<close>

definition truthy_param :: "(string \<times> string) list \<Rightarrow> string \<Rightarrow> string option" where
  "truthy_param ps n =
     (case map_of ps n of
        None \<Rightarrow> None
      | Some v \<Rightarrow> if v = [] then None else Some v)"

definition lang_param :: "(string \<times> string) list \<Rightarrow> string option" where
  "lang_param ps =
     (case truthy_param ps ''lang'' of
        Some v \<Rightarrow> Some v
      | None \<Rightarrow>
          (case truthy_param ps ''locale'' of
             Some v \<Rightarrow> Some v
           | None \<Rightarrow>
               (case truthy_param ps ''hl'' of
                  Some v \<Rightarrow> Some v
                | None \<Rightarrow> truthy_param ps ''language'')))"

text \<open>
  The three places \<open>extractLocale\<close> looks at, each working on the variables
  \<open>path\<close>, \<open>locale\<close>, \<open>language\<close> and \<open>country\<close> of the function.
\<close>

record locale_vars =
  v_path :: string
  v_locale :: "string option"
  v_language :: "string option"
  v_country :: "string option"

definition locale_from_start :: "locale_vars \<Rightarrow> locale_vars" where
  "locale_from_start v =
     (case locale_at True (v_path v) of
        None \<Rightarrow> v
      | Some (g1, g3, n) \<Rightarrow>
          let first = toLowerCase g1;
              second = map_option toLowerCase g3;
              isLanguage = (first \<in> set LANGUAGE_CODES);
              isCountry = (first \<in> set COUNTRY_CODES)
          in
          if isLanguage \<or> isCountry then
            let v1 = (if isLanguage then v\<lparr>v_language := Some first\<rparr>
                      else v\<lparr>v_country := Some first\<rparr>);
                v2 = (case second of
                        Some sec \<Rightarrow>
                          if sec \<in> set COUNTRY_CODES
                          then v1\<lparr>v_country := Some sec, v_locale := Some (first @ ''-'' @ sec)\<rparr>
                          else if sec \<in> set LANGUAGE_CODES
                          then v1\<lparr>v_country := Some sec, v_locale := Some (first @ ''-'' @ sec)\<rparr>
                          else v1\<lparr>v_locale := Some first\<rparr>
                      | None \<Rightarrow> v1\<lparr>v_locale := Some first\<rparr>);
                stripped = strip_locale_start (v_path v)
            in v2\<lparr>v_path := (if stripped = [] then ''/'' else stripped)\<rparr>
          else v)"

definition locale_from_mid :: "locale_vars \<Rightarrow> locale_vars" where
  "locale_from_mid v =
     (if v_locale v \<noteq> None then v
      else (case locale_search (v_path v) of
              None \<Rightarrow> v
            | Some (i, g1, g3, n) \<Rightarrow>
                let first = toLowerCase g1;
                    second = map_option toLowerCase g3;
                    isLanguage = (first \<in> set LANGUAGE_CODES);
                    isCountry = (first \<in> set COUNTRY_CODES);
                    isFalsePositive = (first \<in> set FALSE_POSITIVES)
                in
                if (isLanguage \<or> isCountry) \<and> \<not> isFalsePositive then
                  let v1 = (if isLanguage then v\<lparr>v_language := Some first\<rparr>
                            else v\<lparr>v_country := Some first\<rparr>);
                      v2 = (case second of
                              Some sec \<Rightarrow>
                                if sec \<in> set COUNTRY_CODES
                                then v1\<lparr>v_country := Some sec,
                                        v_locale := Some (first @ ''-'' @ sec)\<rparr>
                                else v1\<lparr>v_locale := Some first\<rparr>
                            | None \<Rightarrow> v1\<lparr>v_locale := Some first\<rparr>)
                  in v2\<lparr>v_path := strip_locale_mid (v_path v)\<rparr>
                else v))"

definition locale_from_query :: "(string \<times> string) list \<Rightarrow> locale_vars \<Rightarrow> locale_vars" where
  "locale_from_query ps v =
     (case lang_param ps of
        None \<Rightarrow> v
      | Some langParam \<Rightarrow>
          if v_locale v \<noteq> None then v
          else
            let parts = split_where is_sep (toLowerCase langParam);
                p0 = (case parts of [] \<Rightarrow> [] | x # xs \<Rightarrow> x);
                p1 = (case parts of x # y # ys \<Rightarrow> y | _ \<Rightarrow> [])
            in
            if p0 \<in> set LANGUAGE_CODES then
              (if p1 \<noteq> [] \<and> p1 \<in> set COUNTRY_CODES
               then v\<lparr>v_language := Some p0, v_country := Some p1,
                      v_locale := Some (p0 @ ''-'' @ p1)\<rparr>
               else v\<lparr>v_language := Some p0, v_locale := Some p0\<rparr>)
            else v)"

definition extractLocale :: "platform \<Rightarrow> string \<Rightarrow> LocaleInfo" where
  "extractLocale api u =
     (case newURL api u of
        None \<Rightarrow> \<lparr>hasLocale = False, locale_code = None, language = None, country = None,
                 canonicalPath = u\<rparr>
      | Some parsed \<Rightarrow>
          let v = locale_from_query (searchParams parsed)
                    (locale_from_mid
                      (locale_from_start
                        \<lparr>v_path = pathname parsed, v_locale = None, v_language = None,
                         v_country = None\<rparr>));
              queryString = params_toString api
                              (delete_params [''lang'', ''locale'', ''hl'', ''language'']
                                 (searchParams parsed))
          in \<lparr>hasLocale = (v_locale v \<noteq> None), locale_code = v_locale v,
              language = v_language v, country = v_country v,
              canonicalPath = v_path v @ (if queryString = [] then [] else ''?'' @ queryString)\<rparr>)"

record Representative =
  url :: string
  rep_locale :: "string option"

record DedupStats =
  localeSkipped :: nat
  similarSkipped :: nat
  total :: nat

record DedupTracker =
  canonicalPaths :: "string \<rightharpoonup> Representative"
  dedup_stats :: DedupStats
  preferredLanguage :: string

definition new_DedupTracker :: "string \<Rightarrow> DedupTracker" where
  "new_DedupTracker preferred =
     \<lparr>canonicalPaths = Map.empty,
      dedup_stats = \<lparr>localeSkipped = 0, similarSkipped = 0, total = 0\<rparr>,
      preferredLanguage = preferred\<rparr>"

record SkipResult =
  skip :: bool
  skip_reason :: "string option"

definition locale_reason :: "LocaleInfo \<Rightarrow> string" where
  "locale_reason li = ''locale:'' @ (case locale_code li of None \<Rightarrow> ''undefined'' | Some l \<Rightarrow> l)"

definition skipped :: "DedupTracker \<Rightarrow> LocaleInfo \<Rightarrow> SkipResult \<times> DedupTracker" where
  "skipped t li =
     (\<lparr>skip = True, skip_reason = Some (locale_reason li)\<rparr>,
      t\<lparr>dedup_stats := (dedup_stats t)\<lparr>localeSkipped := localeSkipped (dedup_stats t) + 1\<rparr>\<rparr>)"

definition shouldSkip :: "platform \<Rightarrow> DedupTracker \<Rightarrow> string \<Rightarrow> error + SkipResult \<times> DedupTracker" where
  "shouldSkip api t u =
     (let localeInfo = extractLocale api u in
      case newURL api u of
        None \<Rightarrow> Inl TypeError
      | Some parsed \<Rightarrow>
          let key = hostname parsed @ canonicalPath localeInfo;
              track = (\<lparr>skip = False, skip_reason = None\<rparr>,
                       t\<lparr>canonicalPaths := (canonicalPaths t)
                                                (key \<mapsto> \<lparr>url = u, rep_locale = locale_code localeInfo\<rparr>),
                         dedup_stats := (dedup_stats t)\<lparr>total := total (dedup_stats t) + 1\<rparr>\<rparr>)
          in
          (case canonicalPaths t key of
             None \<Rightarrow> Inr track
           | Some existing \<Rightarrow>
               if hasLocale localeInfo then
                 (let existingLocale = extractLocale api (url existing) in
                  if language existingLocale = Some (preferredLanguage t) \<or>
                     \<not> hasLocale existingLocale
                  then Inr (skipped t localeInfo)
                  else if language localeInfo = Some (preferredLanguage t)
                  then Inr (\<lparr>skip = False, skip_reason = None\<rparr>,
                            t\<lparr>canonicalPaths := (canonicalPaths t)
                                 (key \<mapsto> \<lparr>url = u, rep_locale = locale_code localeInfo\<rparr>)\<rparr>)
                  else Inr (skipped t localeInfo))
               else Inr track))"

section \<open>crawler/index.ts\<close>

text \<open>
  \<open>depth\<close> and \<open>maxPages\<close> are numbers as the caller hands them over: the command
  line reads them with \<open>parseInt\<close> and checks nothing, so a negative value or \<open>NaN\<close>
  reaches the crawler, and a caller of the library can pass any number. The two patterns
  are \<open>RegExp\<close> objects. \<open>concurrency\<close>, \<open>rateLimit\<close> and \<open>timeout\<close> are only handed on
  to the queue and to the engines.
\<close>

record CrawlOptions =
  depth :: number
  concurrency :: nat
  maxPages :: number
  rateLimit :: nat
  timeout :: nat
  respectRobots :: bool
  useSitemap :: bool
  includePattern :: "RegExp option"
  excludePattern :: "RegExp option"
  forceEngine :: "EngineName option"
  useAuth :: "bool option"

text \<open>Of the extractor's result the crawler reads the links and the word count.\<close>

record ExtractResult =
  title :: string
  links :: "string list"
  wordCount :: int

text \<open>
  \<open>CrawlResult\<close>: the fields \<open>url\<close>, \<open>finalUrl\<close>, \<open>depth\<close> and \<open>engine\<close> of the
  source carry the prefix \<open>result_\<close> here.
\<close>

record CrawlResult =
  result_url :: string
  result_finalUrl :: string
  extracted :: ExtractResult
  result_depth :: nat
  result_engine :: EngineName

text \<open>
  The state of a \<open>Crawler\<close>. \<open>visited\<close> is the \<open>Set\<close> of the source in insertion
  order: \<open>has\<close> is membership, \<open>size\<close> is the length, and \<open>add\<close> is only called
  on a new element. \<open>queue\<close> holds the tasks handed to the \<open>PQueue\<close> whose
  \<open>processUrl\<close> has not finished, waiting or running; the engine waterfall is
  \<open>waterfall\<close>.
\<close>

record Crawler =
  options :: CrawlOptions
  waterfall :: EngineWaterfall
  robots :: RobotsParser
  sitemap :: SitemapParser
  dedup :: DedupTracker
  visited :: "string list"
  queue :: "(string \<times> nat) list"
  baseHosts :: "string list"
  results :: "CrawlResult list"

definition new_Crawler :: "CrawlOptions \<Rightarrow> Crawler" where
  "new_Crawler opts =
     \<lparr>options = opts, waterfall = new_EngineWaterfall, robots = new_RobotsParser,
      sitemap = new_SitemapParser, dedup = new_DedupTracker ''en'', visited = [],
      queue = [], baseHosts = [], results = []\<rparr>"

definition DEFAULT_OPTIONS :: CrawlOptions where
  "DEFAULT_OPTIONS =
     \<lparr>depth = Num 2, concurrency = 10, maxPages = Num 150, rateLimit = 10, timeout = 10000,
      respectRobots = True, useSitemap = True, includePattern = None,
      excludePattern = None, forceEngine = None, useAuth = None\<rparr>"

definition addToQueue :: "platform \<Rightarrow> Crawler \<Rightarrow> string \<Rightarrow> nat \<Rightarrow> Crawler" where
  "addToQueue api c u d =
     (let normalized = normalizeUrl api u in
      if normalized \<in> set (visited c) then c
      else if js_le (maxPages (options c)) (num (length (visited c))) then c
      else c\<lparr>visited := visited c @ [normalized], queue := queue c @ [(u, d)]\<rparr>)"

text \<open>
  The two pattern checks of \<open>shouldCrawl\<close>. Each calls \<open>test\<close> on the pattern, if
  there is one, and so may move its \<open>lastIndex\<close>; \<open>include_fails\<close> answers whether the
  include pattern is there and does not match, \<open>exclude_hits\<close> whether the exclude
  pattern is there and matches.
\<close>

definition include_fails :: "Crawler \<Rightarrow> string \<Rightarrow> bool \<times> Crawler" where
  "include_fails c u =
     (case includePattern (options c) of
        None \<Rightarrow> (False, c)
      | Some re \<Rightarrow>
          (case regexp_test re u of
             (m, re') \<Rightarrow> (\<not> m, c\<lparr>options := (options c)\<lparr>includePattern := Some re'\<rparr>\<rparr>)))"

definition exclude_hits :: "Crawler \<Rightarrow> string \<Rightarrow> bool \<times> Crawler" where
  "exclude_hits c u =
     (case excludePattern (options c) of
        None \<Rightarrow> (False, c)
      | Some re \<Rightarrow>
          (case regexp_test re u of
             (m, re') \<Rightarrow> (m, c\<lparr>options := (options c)\<lparr>excludePattern := Some re'\<rparr>\<rparr>)))"

text \<open>
  \<open>shouldCrawl\<close> returns its verdict and the crawler, in which the pattern checks may
  have moved a \<open>lastIndex\<close> and the last check may have changed the dedup tracker. The
  only call that can throw is \<open>shouldSkip\<close>; the \<open>catch\<close> turns that into a
  rejection.
\<close>

definition shouldCrawl :: "platform \<Rightarrow> Crawler \<Rightarrow> string \<Rightarrow> nat \<Rightarrow> bool \<times> Crawler" where
  "shouldCrawl api c u d =
     (let normalized = normalizeUrl api u in
      if normalized \<in> set (visited c) then (False, c)
      else if js_le (maxPages (options c)) (num (length (visited c))) then (False, c)
      else if js_lt (depth (options c)) (num d) then (False, c)
      else if shouldSkipUrl api u then (False, c)
      else if getBaseDomain api u \<notin> set (baseHosts c) then (False, c)
      else if respectRobots (options c) \<and> \<not> isAllowed api (robots c) u ''*'' then (False, c)
      else (case include_fails c u of
              (True, c1) \<Rightarrow> (False, c1)
            | (False, c1) \<Rightarrow>
                (case exclude_hits c1 u of
                   (True, c2) \<Rightarrow> (False, c2)
                 | (False, c2) \<Rightarrow>
                     (case shouldSkip api (dedup c2) u of
                        Inl e \<Rightarrow> (False, c2)
                      | Inr (dedupResult, t) \<Rightarrow>
                          if skip dedupResult then (False, c2\<lparr>dedup := t\<rparr>)
                          else (True, c2\<lparr>dedup := t\<rparr>)))))"

text \<open>\<open>if (this.shouldCrawl(u, d)) this.addToQueue(u, d)\<close>, as both loops do it.\<close>

definition admit :: "platform \<Rightarrow> nat \<Rightarrow> Crawler \<Rightarrow> string \<Rightarrow> Crawler" where
  "admit api d c u =
     (case shouldCrawl api c u d of
        (True, c') \<Rightarrow> addToQueue api c' u d
      | (False, c') \<Rightarrow> c')"

text \<open>
  What one run of \<open>processUrl\<close> takes from outside: the stored session of a domain
  (its path, if there is one), the engines, and the extractor.
\<close>

record task_env =
  authState :: "string \<Rightarrow> string option"
  engines_of :: engines_env
  extractor :: "string \<Rightarrow> string \<Rightarrow> error + ExtractResult"

definition extractDomain :: "platform \<Rightarrow> string \<Rightarrow> string" where
  "extractDomain api u = (case newURL api u of None \<Rightarrow> u | Some parsed \<Rightarrow> hostname parsed)"

definition processUrl :: "platform \<Rightarrow> task_env \<Rightarrow> Crawler \<Rightarrow> string \<Rightarrow> nat \<Rightarrow> Crawler" where
  "processUrl api env c u d =
     (let auth = (if useAuth (options c) \<noteq> Some False then authState env (extractDomain api u)
                  else None);
          (fetched, w) = waterfall_fetch api (engines_of env) (waterfall c) u
                           \<lparr>eo_timeout = Some (timeout (options c)),
                            eo_forceEngine = forceEngine (options c),
                            authStatePath = auth\<rparr>;
          c1 = c\<lparr>waterfall := w\<rparr>
      in case fetched of
           Inl e \<Rightarrow> c1
         | Inr result \<Rightarrow>
             if res_blocked result then c1
             else if statusCode result \<ge> 400 then c1
             else (case extractor env (html result) (finalUrl result) of
                     Inl e \<Rightarrow> c1
                   | Inr ex \<Rightarrow>
                       if wordCount ex < 20 then c1
                       else
                         let c2 = c1\<lparr>results := results c1 @
                                     [\<lparr>result_url = u, result_finalUrl = finalUrl result,
                                       extracted = ex, result_depth = d,
                                       result_engine = engine result\<rparr>]\<rparr>
                         in if js_lt (num d) (depth (options c))
                            then foldl (admit api (d + 1)) c2 (links ex)
                            else c2))"

text \<open>
  One turn of the loop of \<open>parseSitemaps\<close>, for the seed \<open>u\<close>, against the network
  as it answers during that turn.
\<close>

definition parseSitemaps_turn :: "platform \<Rightarrow> network \<Rightarrow> Crawler \<Rightarrow> string \<Rightarrow> Crawler" where
  "parseSitemaps_turn api net c u =
     (let robotsSitemaps = getSitemaps api (robots c) u;
          (sitemapUrls, sp) = (case robotsSitemaps of
                                 first # others \<Rightarrow> (sitemap_parseUrl api net first, sitemap c)
                               | [] \<Rightarrow> sitemap_parse api net (sitemap c) u);
          limit = js_min (maxPages (options c)) (Num 50)
      in foldl (admit api 1) (c\<lparr>sitemap := sp\<rparr>) (slice_to limit sitemapUrls))"

subsection \<open>The generator \<open>crawl\<close> and the tasks around it\<close>

text \<open>
  \<open>crawl\<close> is an asynchronous generator. Between two of its suspension points (an
  \<open>await\<close> or a \<open>yield\<close>) it runs alone; while it is suspended the queued tasks, the
  robots requests and the sitemap loop make progress in any order. A run is therefore a
  sequence of events, each handled in one piece:
  \<^item> \<open>Resume idle\<close>: the generator runs from its suspension point to the next one;
    \<open>idle\<close> says whether the clock has passed the idle timeout since the last yield;
  \<^item> \<open>RobotsAnswer i a\<close>: the \<open>i\<close>-th outstanding robots request is answered by \<open>a\<close>;
  \<^item> \<open>SitemapAnswer net\<close>: the sitemap loop finishes the turn of its next seed;
  \<^item> \<open>TaskDone i env\<close>: the \<open>i\<close>-th unfinished task of the queue runs \<open>processUrl\<close>
    to its end. Everything \<open>processUrl\<close> changes in the crawler it changes after its last
    \<open>await\<close>, so the whole task is one event.
  \<open>yielded\<close> lists what the generator has yielded so far.
\<close>

datatype pc = Start | AwaitRobots | AwaitSitemaps | Waiting | YieldedInLoop | YieldedFinal | Done

record Run =
  crawler :: Crawler
  pc :: pc
  startUrls :: "string list"
  normalizedUrls :: "string list"
  yieldedCount :: nat
  robotsPending :: "(string \<times> string) list"
  sitemapTodo :: "string list"
  yielded :: "CrawlResult list"

datatype event =
  Resume bool
  | RobotsAnswer nat "error + response"
  | SitemapAnswer network
  | TaskDone nat task_env

definition new_Run :: "CrawlOptions \<Rightarrow> string list \<Rightarrow> Run" where
  "new_Run opts urls =
     \<lparr>crawler = new_Crawler opts, pc = Start, startUrls = urls, normalizedUrls = [],
      yieldedCount = 0, robotsPending = [], sitemapTodo = [], yielded = []\<rparr>"

text \<open>The final loop: yield the next buffered result, or return.\<close>

definition final_flush :: "Run \<Rightarrow> Run" where
  "final_flush r =
     (case results (crawler r) of
        [] \<Rightarrow> r\<lparr>pc := Done\<rparr>
      | x # xs \<Rightarrow> r\<lparr>crawler := (crawler r)\<lparr>results := xs\<rparr>, yielded := yielded r @ [x],
                   pc := YieldedFinal\<rparr>)"

text \<open>The body of the drain loop, from the inner \<open>while\<close> on.\<close>

definition drain_body :: "bool \<Rightarrow> Run \<Rightarrow> Run" where
  "drain_body idle r =
     (case results (crawler r) of
        x # xs \<Rightarrow> r\<lparr>crawler := (crawler r)\<lparr>results := xs\<rparr>, yielded := yielded r @ [x],
                   pc := YieldedInLoop\<rparr>
      | [] \<Rightarrow>
          if js_le (maxPages (options (crawler r))) (num (yieldedCount r)) then final_flush r
          else if idle then final_flush r
          else r\<lparr>pc := Waiting\<rparr>)"

definition drain_loop :: "bool \<Rightarrow> Run \<Rightarrow> Run" where
  "drain_loop idle r =
     (if queue (crawler r) \<noteq> [] \<or> results (crawler r) \<noteq> [] then drain_body idle r
      else final_flush r)"

definition after_robots :: "bool \<Rightarrow> Run \<Rightarrow> Run" where
  "after_robots idle r =
     (if useSitemap (options (crawler r))
      then r\<lparr>sitemapTodo := normalizedUrls r, pc := AwaitSitemaps\<rparr>
      else drain_loop idle r)"

text \<open>The requests the calls \<open>this.robots.parse(url)\<close> send out, all started at once.\<close>

definition robots_requests :: "platform \<Rightarrow> RobotsParser \<Rightarrow> string list \<Rightarrow> (string \<times> string) list" where
  "robots_requests api st us =
     concat (map (\<lambda>u. case robots_begin api st u of
                          Inr (Some rq) \<Rightarrow> [rq]
                        | _ \<Rightarrow> []) us)"

definition begin_crawl :: "platform \<Rightarrow> bool \<Rightarrow> Run \<Rightarrow> Run" where
  "begin_crawl api idle r =
     (let ns = map (normalizeUrl api) (startUrls r);
          c1 = (crawler r)\<lparr>baseHosts := remdups (map (getBaseDomain api) ns)\<rparr>;
          c2 = foldl (\<lambda>c u. addToQueue api c u 0) c1 ns;
          r1 = r\<lparr>crawler := c2, normalizedUrls := ns\<rparr>
      in if respectRobots (options c2)
         then r1\<lparr>robotsPending := robots_requests api (robots c2) ns, pc := AwaitRobots\<rparr>
         else after_robots idle r1)"

definition resume :: "platform \<Rightarrow> bool \<Rightarrow> Run \<Rightarrow> Run" where
  "resume api idle r =
     (case pc r of
        Start \<Rightarrow> begin_crawl api idle r
      | AwaitRobots \<Rightarrow> after_robots idle r
      | AwaitSitemaps \<Rightarrow> drain_loop idle r
      | Waiting \<Rightarrow> drain_loop idle r
      | YieldedInLoop \<Rightarrow> drain_body False (r\<lparr>yieldedCount := yieldedCount r + 1\<rparr>)
      | YieldedFinal \<Rightarrow> final_flush r
      | Done \<Rightarrow> r)"

definition remove_nth :: "nat \<Rightarrow> 'a list \<Rightarrow> 'a list" where
  "remove_nth i xs = take i xs @ drop (Suc i) xs"

definition step :: "platform \<Rightarrow> Run \<Rightarrow> event \<Rightarrow> Run" where
  "step api r ev =
     (case ev of
        Resume idle \<Rightarrow> resume api idle r
      | RobotsAnswer i answer \<Rightarrow>
          if i < length (robotsPending r) then
            (let (robotsUrl, host) = robotsPending r ! i
             in r\<lparr>crawler := (crawler r)\<lparr>robots := robots_finish api (robots (crawler r)) host answer\<rparr>,
                  robotsPending := remove_nth i (robotsPending r)\<rparr>)
          else r
      | SitemapAnswer net \<Rightarrow>
          (case sitemapTodo r of
             [] \<Rightarrow> r
           | u # rest \<Rightarrow> r\<lparr>crawler := parseSitemaps_turn api net (crawler r) u,
                          sitemapTodo := rest\<rparr>)
      | TaskDone i env \<Rightarrow>
          if i < length (queue (crawler r)) then
            (let (u, d) = queue (crawler r) ! i;
                 c = (crawler r)\<lparr>queue := remove_nth i (queue (crawler r))\<rparr>
             in r\<lparr>crawler := processUrl api env c u d\<rparr>)
          else r)"

definition exec :: "platform \<Rightarrow> event list \<Rightarrow> Run \<Rightarrow> Run" where
  "exec api evs r = foldl (step api) r evs"

subsection \<open>Invariants of a run\<close>

text \<open>
  \<open>budget_ok k c\<close>: with \<open>k\<close> results yielded so far, the results yielded, buffered
  and still to be produced by unfinished tasks are at most as many as the visited URLs,
  and the last of these was added while the guard \<open>visited.size >= maxPages\<close> was
  false. \<open>depth_ok c\<close>: every task and every buffered result is at depth 0 or at a
  depth for which the check \<open>depth > options.depth\<close> is false. \<open>plain_patterns\<close>: no
  pattern carries the \<open>g\<close> or the \<open>y\<close> flag.
\<close>

definition budget_ok :: "nat \<Rightarrow> Crawler \<Rightarrow> bool" where
  "budget_ok k c \<longleftrightarrow>
     k + length (results c) + length (queue c) \<le> length (visited c) \<and>
     (visited c = [] \<or> \<not> js_le (maxPages (options c)) (num (length (visited c) - 1)))"

definition depth_ok :: "Crawler \<Rightarrow> bool" where
  "depth_ok c \<longleftrightarrow>
     (\<forall>(u, d)\<in>set (queue c). d = 0 \<or> \<not> js_lt (depth (options c)) (num d)) \<and>
     (\<forall>x\<in>set (results c).
        result_depth x = 0 \<or> \<not> js_lt (depth (options c)) (num (result_depth x)))"

definition run_budget :: "Run \<Rightarrow> bool" where
  "run_budget r \<longleftrightarrow> budget_ok (length (yielded r)) (crawler r)"

definition run_depth :: "Run \<Rightarrow> bool" where
  "run_depth r \<longleftrightarrow>
     depth_ok (crawler r) \<and>
     (\<forall>x\<in>set (yielded r).
        result_depth x = 0 \<or>
        \<not> js_lt (depth (options (crawler r))) (num (result_depth x)))"

definition plain_patterns :: "CrawlOptions \<Rightarrow> bool" where
  "plain_patterns opts \<longleftrightarrow>
     (case includePattern opts of None \<Rightarrow> True | Some re \<Rightarrow> \<not> advancing re) \<and>
     (case excludePattern opts of None \<Rightarrow> True | Some re \<Rightarrow> \<not> advancing re)"

section \<open>Concrete inputs\<close>

text \<open>
  A platform for the examples: \<open>new URL\<close> as a table of the URLs that occur in them,
  each row written out as the constructor parses it, and a serialisation of query
  parameters for names and values that need no escaping.
\<close>

definition simple_query :: "(string \<times> string) list \<Rightarrow> string" where
  "simple_query ps =
     (case map (\<lambda>(k, v). k @ ''='' @ v) ps of
        [] \<Rightarrow> []
      | x # xs \<Rightarrow> foldl (\<lambda>acc y. acc @ ''&'' @ y) x xs)"

definition https :: "string \<Rightarrow> string \<Rightarrow> string \<times> URL" where
  "https host path =
     (''https://'' @ host @ path,
      \<lparr>origin = ''https://'' @ host, hostname = host, pathname = path, search = [],
       searchParams = []\<rparr>)"

definition table_api :: "(string \<times> URL) list \<Rightarrow> platform" where
  "table_api t =
     \<lparr>newURL = map_of t, params_toString = simple_query, parseFloat = (\<lambda>s. None),
      cheerio_text = (\<lambda>sel content. [])\<rparr>"

definition robots_api :: platform where
  "robots_api =
     table_api [https ''example.com'' ''/'', https ''example.com'' ''/a/b/c'',
                https ''example.com'' ''/x'', https ''example.com'' ''/a/z'']"

definition serve_robots :: "string \<Rightarrow> network" where
  "serve_robots txt =
     (\<lambda>u. if u = ''https://example.com/robots.txt''
          then Inr \<lparr>ok = True, text_body = Inr txt\<rparr>
          else Inl (Error ''ENOTFOUND''))"

definition robots_txt_longer :: string where
  "robots_txt_longer =
     ''User-agent: *'' @ [CHR 0x0A] @ ''Disallow: /a'' @ [CHR 0x0A] @ ''Allow: /a/b'' @ [CHR 0x0A]"

definition robots_txt_tie :: string where
  "robots_txt_tie =
     ''User-agent: *'' @ [CHR 0x0A] @ ''Disallow: /x'' @ [CHR 0x0A] @ ''Allow: /x'' @ [CHR 0x0A]"

definition parsed_robots :: "string \<Rightarrow> RobotsParser" where
  "parsed_robots txt =
     (case robots_parse robots_api (serve_robots txt) new_RobotsParser ''https://example.com/'' of
        Inl e \<Rightarrow> new_RobotsParser
      | Inr st \<Rightarrow> st)"

definition no_network :: network where
  "no_network = (\<lambda>u. Inl (Error ''ETIMEDOUT''))"

definition long_cloudflare_page :: string where
  "long_cloudflare_page = ''cloudflare ray id:'' @ replicate 50000 (CHR ''a'')"

text \<open>
  Engines for the examples: the plain fetch is answered with status 429, the scripted
  browser with a page; the browser runtime is installed.
\<close>

definition page_200 :: FetchResult where
  "page_200 = \<lparr>html = ''<main>hello</main>'', statusCode = 200,
                finalUrl = ''https://example.com/''\<rparr>"

definition page_429 :: FetchResult where
  "page_429 = \<lparr>html = ''slow down'', statusCode = 429, finalUrl = ''https://example.com/''\<rparr>"

definition throttled_env :: engines_env where
  "throttled_env =
     \<lparr>engine_fetch = (\<lambda>e u opts. if e = Fetch then Inr page_429 else Inr page_200),
      isPlaywrightInstalled = (\<lambda>e. True), installBrowser = True\<rparr>"

definition no_options :: EngineOptions where
  "no_options = \<lparr>eo_timeout = None, eo_forceEngine = None, authStatePath = None\<rparr>"

text \<open>
  A site for the sitemap examples: the index at \<open>/sitemap.xml\<close> names ten child
  sitemaps, and every child sitemap lists 500 pages.
\<close>

definition child_sitemaps :: "string list" where
  "child_sitemaps = map (\<lambda>d. ''https://example.com/sitemap-'' @ [d] @ ''.xml'') ''0123456789''"

definition child_pages :: "string \<Rightarrow> string list" where
  "child_pages content =
     concat (map (\<lambda>a. map (\<lambda>b. drop 8 content @ ''/'' @ [a, b]) ''abcdefghijklmnopqrstuvwxy'')
               ''abcdefghijklmnopqrst'')"

definition sitemap_api :: platform where
  "sitemap_api =
     \<lparr>newURL = map_of [https ''example.com'' ''/'', https ''example.com'' ''/sitemap.xml''],
      params_toString = simple_query, parseFloat = (\<lambda>s. None),
      cheerio_text = (\<lambda>sel content.
         if sel = ''sitemap loc'' then (if content = ''<sitemapindex>'' then child_sitemaps else [])
         else if sel = ''url loc'' then (if take 8 content = ''<urlset>'' then child_pages content else [])
         else [])\<rparr>"

definition sitemap_net :: network where
  "sitemap_net =
     (\<lambda>u. if u = ''https://example.com/sitemap.xml''
          then Inr \<lparr>ok = True, text_body = Inr ''<sitemapindex>''\<rparr>
          else if u \<in> set child_sitemaps
          then Inr \<lparr>ok = True, text_body = Inr (''<urlset>'' @ u)\<rparr>
          else Inr \<lparr>ok = False, text_body = Inr []\<rparr>)"

text \<open>The URLs of the dedup examples, and a string that is no URL.\<close>

definition dedup_api :: platform where
  "dedup_api =
     table_api [https ''example.com'' ''/en/docs/guide'', https ''example.com'' ''/de/docs/guide'',
                https ''example.com'' ''/docs/guide'', https ''example.com'' ''/en/docs'',
                https ''example.com'' ''/'']"

definition guide_en :: string where
  "guide_en = ''https://example.com/en/docs/guide''"

definition guide_de :: string where
  "guide_de = ''https://example.com/de/docs/guide''"

definition guide_plain :: string where
  "guide_plain = ''https://example.com/docs/guide''"

text \<open>
  A small crawl: depth 1, a page budget \<open>q\<close>, no robots and no sitemap step. The plain
  fetch is throttled, the browser engine answers, and every page links to two more.
\<close>

definition crawl_opts :: "rat \<Rightarrow> CrawlOptions" where
  "crawl_opts q =
     DEFAULT_OPTIONS\<lparr>depth := Num 1, maxPages := Num q, respectRobots := False,
                      useSitemap := False\<rparr>"

definition crawl_env :: task_env where
  "crawl_env =
     \<lparr>authState = (\<lambda>d. None), engines_of = throttled_env,
      extractor = (\<lambda>h f. Inr \<lparr>title = ''Guide'',
                                links = [guide_plain, ''https://example.com/en/docs''],
                                wordCount = 100\<rparr>)\<rparr>"

definition crawl_events :: "event list" where
  "crawl_events =
     [Resume False, TaskDone 0 crawl_env, Resume False, TaskDone 0 crawl_env, Resume False,
      Resume False]"

definition crawl_run :: "rat \<Rightarrow> Run" where
  "crawl_run q = exec dedup_api crawl_events (new_Run (crawl_opts q) [''https://example.com/''])"

text \<open>The states this crawl goes through.\<close>

definition crawl_w1 :: EngineWaterfall where
  "crawl_w1 =
     \<lparr>engines = [Fetch, Playwright],
      stats = \<lparr>n_fetch = 0, n_playwright = 1, n_rebrowser = 0, n_blocked = 0\<rparr>,
      browserInstallPromise = None, tried = [Fetch, Playwright], called = [Fetch, Playwright]\<rparr>"

definition crawl_w2 :: EngineWaterfall where
  "crawl_w2 =
     \<lparr>engines = [Fetch, Playwright],
      stats = \<lparr>n_fetch = 0, n_playwright = 2, n_rebrowser = 0, n_blocked = 0\<rparr>,
      browserInstallPromise = None, tried = [Fetch, Playwright, Fetch, Playwright],
      called = [Fetch, Playwright, Fetch, Playwright]\<rparr>"

definition crawl_ex :: ExtractResult where
  "crawl_ex =
     \<lparr>title = ''Guide'', links = [guide_plain, ''https://example.com/en/docs''], wordCount = 100\<rparr>"

definition crawl_r0 :: CrawlResult where
  "crawl_r0 =
     \<lparr>result_url = ''https://example.com/'', result_finalUrl = ''https://example.com/'',
      extracted = crawl_ex, result_depth = 0, result_engine = Playwright\<rparr>"

definition crawl_r1 :: CrawlResult where
  "crawl_r1 =
     \<lparr>result_url = guide_plain, result_finalUrl = ''https://example.com/'',
      extracted = crawl_ex, result_depth = 1, result_engine = Playwright\<rparr>"

definition crawl_d1 :: DedupTracker where
  "crawl_d1 =
     \<lparr>canonicalPaths = [''example.com/docs/guide'' \<mapsto> \<lparr>url = guide_plain, rep_locale = None\<rparr>],
      dedup_stats = \<lparr>localeSkipped = 0, similarSkipped = 0, total = 1\<rparr>,
      preferredLanguage = ''en''\<rparr>"

definition crawl_c1 :: "rat \<Rightarrow> Crawler" where
  "crawl_c1 q =
     (new_Crawler (crawl_opts q))\<lparr>baseHosts := [''example.com''],
        visited := [''https://example.com/''], queue := [(''https://example.com/'', 0)]\<rparr>"

definition crawl_s1 :: "rat \<Rightarrow> Run" where
  "crawl_s1 q =
     \<lparr>crawler = crawl_c1 q, pc = Waiting, startUrls = [''https://example.com/''],
      normalizedUrls = [''https://example.com/''], yieldedCount = 0, robotsPending = [],
      sitemapTodo = [], yielded = []\<rparr>"

definition crawl_c2 :: "rat \<Rightarrow> Crawler" where
  "crawl_c2 q =
     (crawl_c1 q)\<lparr>waterfall := crawl_w1, dedup := crawl_d1,
                  visited := [''https://example.com/'', guide_plain],
                  queue := [(guide_plain, 1)], results := [crawl_r0]\<rparr>"

text \<open>
  The same site crawled with \<open>depth = -1\<close>, as \<open>--depth=-1\<close> on the command line
  configures it, up to the first result.
\<close>

definition below_opts :: CrawlOptions where
  "below_opts = DEFAULT_OPTIONS\<lparr>depth := Num (- 1), respectRobots := False, useSitemap := False\<rparr>"

definition below_events :: "event list" where
  "below_events = [Resume False, TaskDone 0 crawl_env, Resume False]"

definition below_run :: Run where
  "below_run = exec dedup_api below_events (new_Run below_opts [''https://example.com/''])"

definition below_c1 :: Crawler where
  "below_c1 =
     (new_Crawler below_opts)\<lparr>baseHosts := [''example.com''],
        visited := [''https://example.com/''], queue := [(''https://example.com/'', 0)]\<rparr>"

definition below_s1 :: Run where
  "below_s1 =
     \<lparr>crawler = below_c1, pc = Waiting, startUrls = [''https://example.com/''],
      normalizedUrls = [''https://example.com/''], yieldedCount = 0, robotsPending = [],
      sitemapTodo = [], yielded = []\<rparr>"

text \<open>A crawl with \<open>maxPages = -5\<close>, before anything has happened.\<close>

definition negative_budget_run :: Run where
  "negative_budget_run =
     exec dedup_api [] (new_Run (DEFAULT_OPTIONS\<lparr>maxPages := Num (- 5)\<rparr>) [''https://example.com/''])"

text \<open>A crawler after its seed \<open>https://example.com/\<close> has been queued, with the default options.\<close>

definition seeded_crawler :: Crawler where
  "seeded_crawler =
     crawler (exec dedup_api [Resume False] (new_Run DEFAULT_OPTIONS [''https://example.com/'']))"

definition docs_en :: string where
  "docs_en = ''https://example.com/en/docs''"

text \<open>
  An include pattern with the \<open>g\<close> flag, as \<open>new RegExp("example", "g")\<close> gives it:
  the search for the text \<open>example\<close> from the start index on.
\<close>

fun find_end :: "string \<Rightarrow> string \<Rightarrow> nat option" where
  "find_end p [] = (if p = [] then Some 0 else None)"
| "find_end p (x # xs) =
     (if prefix p (x # xs) then Some (length p) else map_option Suc (find_end p xs))"

definition global_example :: RegExp where
  "global_example =
     \<lparr>advancing = True, lastIndex = 0,
      exec_at = (\<lambda>i s. map_option (\<lambda>e. i + e) (find_end ''example'' (drop i s)))\<rparr>"

definition global_crawler :: Crawler where
  "global_crawler =
     seeded_crawler\<lparr>options := (options seeded_crawler)\<lparr>includePattern := Some global_example\<rparr>\<rparr>"

section \<open>Properties\<close>

subsection \<open>Robots policy\<close>

lemma longer_cases: "longer r x = r \<or> longer r x = x"
  unfolding longer_def by simp

lemma longer_ge_left: "length (pattern r) \<le> length (pattern (longer r x))"
  unfolding longer_def by simp

lemma longer_ge_right: "length (pattern x) \<le> length (pattern (longer r x))"
  unfolding longer_def by simp

lemma longer_right: "longer r x \<noteq> r \<Longrightarrow> length (pattern r) < length (pattern x) \<or> isAllow x"
  unfolding longer_def by (simp split: if_splits)

lemma longer_left: "longer r x = r \<Longrightarrow> isAllow x \<Longrightarrow> length (pattern x) = length (pattern r) \<Longrightarrow> isAllow r"
  unfolding longer_def by (simp split: if_splits)

lemma foldl_longer_mem: "foldl longer b ms \<in> set (b # ms)"
proof (induction ms rule: rev_induct)
  case Nil
  show ?case by simp
next
  case (snoc m ms)
  have "foldl longer b (ms @ [m]) = longer (foldl longer b ms) m" by simp
  with longer_cases [of "foldl longer b ms" m] snoc show ?case by auto
qed

lemma foldl_longer_max:
  "m \<in> set (b # ms) \<Longrightarrow> length (pattern m) \<le> length (pattern (foldl longer b ms))"
proof (induction ms rule: rev_induct)
  case Nil
  then show ?case by simp
next
  case (snoc x xs)
  have step: "foldl longer b (xs @ [x]) = longer (foldl longer b xs) x" by simp
  show ?case
  proof (cases "m = x")
    case True
    then show ?thesis unfolding step using longer_ge_right by simp
  next
    case False
    with snoc.prems have "m \<in> set (b # xs)" by auto
    from snoc.IH [OF this] longer_ge_left [of "foldl longer b xs" x]
    show ?thesis unfolding step by linarith
  qed
qed

lemma foldl_longer_allow:
  "m \<in> set (b # ms) \<Longrightarrow> isAllow m \<Longrightarrow>
   length (pattern m) = length (pattern (foldl longer b ms)) \<Longrightarrow>
   isAllow (foldl longer b ms)"
proof (induction ms rule: rev_induct)
  case Nil
  then show ?case by simp
next
  case (snoc x xs)
  let ?r = "foldl longer b xs"
  have step: "foldl longer b (xs @ [x]) = longer ?r x" by simp
  show ?case
  proof (cases "longer ?r x = ?r")
    case True
    show ?thesis
    proof (cases "m = x")
      case mx: True
      from snoc.prems(2,3) have "isAllow x" "length (pattern x) = length (pattern ?r)"
        unfolding step True mx by simp_all
      with longer_left [OF True] show ?thesis unfolding step True by simp
    next
      case False
      with snoc.prems have mem: "m \<in> set (b # xs)" by auto
      from snoc.prems(3) have "length (pattern m) = length (pattern ?r)"
        unfolding step True .
      from snoc.IH [OF mem snoc.prems(2) this] show ?thesis unfolding step True .
    qed
  next
    case False
    with longer_cases [of ?r x] have eq: "longer ?r x = x" by simp
    show ?thesis
    proof (cases "m = x")
      case True
      with snoc.prems(2) show ?thesis unfolding step eq by simp
    next
      case mx: False
      with snoc.prems have mem: "m \<in> set (b # xs)" by auto
      from foldl_longer_max [OF mem] have le: "length (pattern m) \<le> length (pattern ?r)" .
      from snoc.prems(3) have "length (pattern m) = length (pattern x)" unfolding step eq .
      with le longer_right [OF False] show ?thesis unfolding step eq by simp
    qed
  qed
qed

lemma set_collect_matches:
  "set (collect_matches path rs) =
     {\<lparr>pattern = a, isAllow = True\<rparr> | a r. r \<in> set rs \<and> a \<in> set (allow r) \<and> pathMatches path a} \<union>
     {\<lparr>pattern = d, isAllow = False\<rparr> | d r. r \<in> set rs \<and> d \<in> set (disallow r) \<and> pathMatches path d}"
  unfolding collect_matches_def rule_matches_def by auto

lemma isAllowed_matches:
  assumes "newURL api u = Some p" and "rules st (hostname p) = Some hostRules"
  shows "isAllowed api st u ua \<longleftrightarrow>
     (let ms = collect_matches (pathname p @ search p) (matching_rules ua hostRules) in
        ms = [] \<or> (\<exists>a\<in>set ms. isAllow a \<and> (\<forall>m\<in>set ms. length (pattern m) \<le> length (pattern a))))"
proof -
  let ?ms = "collect_matches (pathname p @ search p) (matching_rules ua hostRules)"
  have nil: "matching_rules ua hostRules = [] \<Longrightarrow> ?ms = []"
    by (simp add: collect_matches_def)
  have nil': "hostRules = [] \<Longrightarrow> ?ms = []"
    by (simp add: collect_matches_def matching_rules_def)
  show ?thesis
  proof (cases ?ms)
    case Nil
    with assms show ?thesis by (simp add: isAllowed_def Let_def)
  next
    case (Cons m ms)
    with nil nil' have ne: "hostRules \<noteq> []" "matching_rules ua hostRules \<noteq> []" by auto
    have val: "isAllowed api st u ua = isAllow (foldl longer m ms)"
      using assms ne Cons by (simp add: isAllowed_def Let_def)
    have "isAllow (foldl longer m ms) \<longleftrightarrow>
          (\<exists>a\<in>set (m # ms). isAllow a \<and> (\<forall>x\<in>set (m # ms). length (pattern x) \<le> length (pattern a)))"
    proof
      assume "isAllow (foldl longer m ms)"
      with foldl_longer_mem [of m ms] foldl_longer_max [of _ m ms]
      show "\<exists>a\<in>set (m # ms). isAllow a \<and> (\<forall>x\<in>set (m # ms). length (pattern x) \<le> length (pattern a))"
        by blast
    next
      assume "\<exists>a\<in>set (m # ms). isAllow a \<and> (\<forall>x\<in>set (m # ms). length (pattern x) \<le> length (pattern a))"
      then obtain a where a: "a \<in> set (m # ms)" "isAllow a"
        and mx: "\<forall>x\<in>set (m # ms). length (pattern x) \<le> length (pattern a)" by blast
      from mx foldl_longer_mem [of m ms]
      have "length (pattern (foldl longer m ms)) \<le> length (pattern a)" by blast
      with foldl_longer_max [OF a(1)] have "length (pattern a) = length (pattern (foldl longer m ms))"
        by simp
      from foldl_longer_allow [OF a this] show "isAllow (foldl longer m ms)" .
    qed
    with val Cons show ?thesis by (simp add: Let_def)
  qed
qed

text \<open>
  Claim C4. In \<open>isAllowed\<close>, among the allow and disallow patterns of the rule blocks
  for the user agent (or for \<open>*\<close>) that match the path and query of the URL, the
  longest one decides and an allow pattern wins a tie: the URL is allowed exactly when
  every matching pattern is at most as long as some matching allow pattern. So a URL that
  no pattern matches is allowed, and a URL is refused exactly when a matching disallow
  pattern is strictly longer than every matching allow pattern.
\<close>

theorem isAllowed_longest_match:
  assumes "newURL api u = Some p" and "rules st (hostname p) = Some hostRules"
  shows "isAllowed api st u ua \<longleftrightarrow>
     (let ms = collect_matches (pathname p @ search p) (matching_rules ua hostRules) in
        \<forall>m\<in>set ms. \<exists>a\<in>set ms. isAllow a \<and> length (pattern m) \<le> length (pattern a))"
proof -
  let ?ms = "collect_matches (pathname p @ search p) (matching_rules ua hostRules)"
  have "(?ms = [] \<or> (\<exists>a\<in>set ?ms. isAllow a \<and> (\<forall>m\<in>set ?ms. length (pattern m) \<le> length (pattern a)))) \<longleftrightarrow>
        (\<forall>m\<in>set ?ms. \<exists>a\<in>set ?ms. isAllow a \<and> length (pattern m) \<le> length (pattern a))"
    (is "?L \<longleftrightarrow> ?R")
  proof
    assume ?L then show ?R by auto
  next
    assume R: ?R
    show ?L
    proof (cases ?ms)
      case Nil then show ?thesis by simp
    next
      case (Cons x xs)
      let ?b = "foldl longer x xs"
      have mem: "?b \<in> set ?ms" using foldl_longer_mem [of x xs] Cons by simp
      with R obtain a where a: "a \<in> set ?ms" "isAllow a" "length (pattern ?b) \<le> length (pattern a)"
        by blast
      have "\<forall>m\<in>set ?ms. length (pattern m) \<le> length (pattern a)"
      proof
        fix m assume "m \<in> set ?ms"
        then have "m \<in> set (x # xs)" using Cons by simp
        from foldl_longer_max [OF this] a(3) show "length (pattern m) \<le> length (pattern a)" by simp
      qed
      with a show ?thesis by blast
    qed
  qed
  with isAllowed_matches [OF assms, of ua] show ?thesis by (simp add: Let_def)
qed

text \<open>
  The two examples of the claim, from the text of a robots.txt: \<open>Disallow: /a\<close> with
  \<open>Allow: /a/b\<close> allows \<open>/a/b/c\<close> (and refuses \<open>/a/z\<close>); \<open>Disallow: /x\<close> with
  \<open>Allow: /x\<close> allows \<open>/x\<close>.
\<close>

theorem isAllowed_longest_match_witness:
  "isAllowed robots_api (parsed_robots robots_txt_longer) ''https://example.com/a/b/c'' ''*'' \<and>
   \<not> isAllowed robots_api (parsed_robots robots_txt_longer) ''https://example.com/a/z'' ''*'' \<and>
   isAllowed robots_api (parsed_robots robots_txt_tie) ''https://example.com/x'' ''*''"
proof -
  let ?longer = "[\<lparr>userAgent = ''*'', allow = [''/a/b''], disallow = [''/a''], crawlDelay = None\<rparr>]"
  let ?tie = "[\<lparr>userAgent = ''*'', allow = [''/x''], disallow = [''/x''], crawlDelay = None\<rparr>]"
  have u1: "newURL robots_api ''https://example.com/a/b/c'' = Some (snd (https ''example.com'' ''/a/b/c''))"
    by code_simp
  have u2: "newURL robots_api ''https://example.com/a/z'' = Some (snd (https ''example.com'' ''/a/z''))"
    by code_simp
  have u3: "newURL robots_api ''https://example.com/x'' = Some (snd (https ''example.com'' ''/x''))"
    by code_simp
  have r1: "rules (parsed_robots robots_txt_longer) (hostname (snd (https ''example.com'' ''/a/b/c''))) = Some ?longer"
    by code_simp
  have r2: "rules (parsed_robots robots_txt_longer) (hostname (snd (https ''example.com'' ''/a/z''))) = Some ?longer"
    by code_simp
  have r3: "rules (parsed_robots robots_txt_tie) (hostname (snd (https ''example.com'' ''/x''))) = Some ?tie"
    by code_simp
  have e1: "let ms = collect_matches (pathname (snd (https ''example.com'' ''/a/b/c'')) @
                        search (snd (https ''example.com'' ''/a/b/c''))) (matching_rules ''*'' ?longer)
            in \<forall>m\<in>set ms. \<exists>a\<in>set ms. isAllow a \<and> length (pattern m) \<le> length (pattern a)"
    by code_simp
  have e2: "\<not> (let ms = collect_matches (pathname (snd (https ''example.com'' ''/a/z'')) @
                        search (snd (https ''example.com'' ''/a/z''))) (matching_rules ''*'' ?longer)
            in \<forall>m\<in>set ms. \<exists>a\<in>set ms. isAllow a \<and> length (pattern m) \<le> length (pattern a))"
    by code_simp
  have e3: "let ms = collect_matches (pathname (snd (https ''example.com'' ''/x'')) @
                        search (snd (https ''example.com'' ''/x''))) (matching_rules ''*'' ?tie)
            in \<forall>m\<in>set ms. \<exists>a\<in>set ms. isAllow a \<and> length (pattern m) \<le> length (pattern a)"
    by code_simp
  from isAllowed_longest_match [OF u1 r1, of "''*''"] e1
       isAllowed_longest_match [OF u2 r2, of "''*''"] e2
       isAllowed_longest_match [OF u3 r3, of "''*''"] e3
  show ?thesis by blast
qed

text \<open>
  Claim C9. When the request for robots.txt fails or its answer is not OK, \<open>parse\<close>
  records the empty rule list for the host, and \<open>isAllowed\<close> then allows every URL of
  that host; and \<open>isAllowed\<close> allows every URL whose host has no robots record.
\<close>

theorem robots_fail_open:
  "(newURL api u = Some p \<and> rules st (hostname p) = None \<and>
    (\<forall>resp. net (origin p @ ''/robots.txt'') = Inr resp \<longrightarrow> \<not> ok resp) \<longrightarrow>
    (\<exists>st'. robots_parse api net st u = Inr st' \<and> rules st' (hostname p) = Some [] \<and>
       (\<forall>u' ua. (\<forall>p'. newURL api u' = Some p' \<longrightarrow> hostname p' = hostname p) \<longrightarrow>
                 isAllowed api st' u' ua))) \<and>
   ((\<forall>p'. newURL api u' = Some p' \<longrightarrow> rules st (hostname p') = None) \<longrightarrow>
    isAllowed api st u' ua)"
proof (intro conjI impI)
  assume h: "newURL api u = Some p \<and> rules st (hostname p) = None \<and>
    (\<forall>resp. net (origin p @ ''/robots.txt'') = Inr resp \<longrightarrow> \<not> ok resp)"
  let ?st = "st\<lparr>rules := (rules st)(hostname p \<mapsto> [])\<rparr>"
  have fin: "robots_finish api st (hostname p) (net (origin p @ ''/robots.txt'')) = ?st"
    using h by (auto simp: robots_finish_def split: sum.splits)
  have "robots_parse api net st u = Inr ?st"
    using h fin by (simp add: robots_parse_def robots_begin_def Let_def)
  moreover have "rules ?st (hostname p) = Some []" by simp
  moreover have "isAllowed api ?st u' ua"
    if "\<forall>p'. newURL api u' = Some p' \<longrightarrow> hostname p' = hostname p" for u' ua
    using that by (auto simp: isAllowed_def Let_def split: option.splits)
  ultimately show "\<exists>st'. robots_parse api net st u = Inr st' \<and> rules st' (hostname p) = Some [] \<and>
       (\<forall>u' ua. (\<forall>p'. newURL api u' = Some p' \<longrightarrow> hostname p' = hostname p) \<longrightarrow>
                 isAllowed api st' u' ua)"
    by blast
next
  assume "\<forall>p'. newURL api u' = Some p' \<longrightarrow> rules st (hostname p') = None"
  then show "isAllowed api st u' ua"
    by (auto simp: isAllowed_def Let_def split: option.splits)
qed

theorem robots_fail_open_witness:
  "(\<exists>st'. robots_parse robots_api no_network new_RobotsParser ''https://example.com/'' = Inr st' \<and>
          rules st' ''example.com'' = Some [] \<and>
          isAllowed robots_api st' ''https://example.com/a/b/c'' ''*'') \<and>
   isAllowed robots_api new_RobotsParser ''https://example.com/x'' ''*''"
proof -
  let ?p = "snd (https ''example.com'' ''/'')"
  have u: "newURL robots_api ''https://example.com/'' = Some ?p" by code_simp
  have host: "hostname ?p = ''example.com''" by code_simp
  have fresh: "rules new_RobotsParser (hostname ?p) = None"
    by (simp add: new_RobotsParser_def)
  have bad: "\<forall>resp. no_network (origin ?p @ ''/robots.txt'') = Inr resp \<longrightarrow> \<not> ok resp"
    by (simp add: no_network_def)
  have same: "\<forall>p'. newURL robots_api ''https://example.com/a/b/c'' = Some p' \<longrightarrow> hostname p' = hostname ?p"
    by (simp add: robots_api_def table_api_def https_def)
  have none: "\<forall>p'. newURL robots_api ''https://example.com/x'' = Some p' \<longrightarrow>
                rules new_RobotsParser (hostname p') = None"
    by (simp add: new_RobotsParser_def)
  from robots_fail_open [of robots_api "''https://example.com/''" ?p new_RobotsParser no_network
         "''https://example.com/x''" "''*''"] u fresh bad none
  have "(\<exists>st'. robots_parse robots_api no_network new_RobotsParser ''https://example.com/'' = Inr st' \<and>
           rules st' (hostname ?p) = Some [] \<and>
           (\<forall>u' ua. (\<forall>p'. newURL robots_api u' = Some p' \<longrightarrow> hostname p' = hostname ?p) \<longrightarrow>
                     isAllowed robots_api st' u' ua))"
    and second: "isAllowed robots_api new_RobotsParser ''https://example.com/x'' ''*''"
    by blast+
  then obtain st' where
    st': "robots_parse robots_api no_network new_RobotsParser ''https://example.com/'' = Inr st'"
         "rules st' (hostname ?p) = Some []"
         "\<forall>u' ua. (\<forall>p'. newURL robots_api u' = Some p' \<longrightarrow> hostname p' = hostname ?p) \<longrightarrow>
                   isAllowed robots_api st' u' ua"
    by blast
  from st'(3) same have "isAllowed robots_api st' ''https://example.com/a/b/c'' ''*''" by blast
  with st'(1,2) host second show ?thesis by auto
qed

subsection \<open>Block detector\<close>

lemmas pattern_defs = CLOUDFLARE_PATTERNS_def DATADOME_PATTERNS_def PERIMETERX_PATTERNS_def
  AKAMAI_PATTERNS_def BOT_DETECTION_PATTERNS_def CAPTCHA_PATTERNS_def

lemmas detector_eval = isBlocked_def matched_def some_match_def pattern_defs fold_case_def
  fold_char_def

lemma some_match_matched: "some_match ps body \<longleftrightarrow> 1 \<le> matched ps body"
  by (induction ps) (auto simp: some_match_def matched_def)

lemma str_includes_append: "str_includes xs p \<Longrightarrow> str_includes (xs @ ys) p"
proof (induction xs)
  case Nil
  then show ?case by (cases ys) auto
next
  case (Cons x xs)
  then show ?case using prefix_prefix [of p "x # xs" ys] by auto
qed

lemma marker_test_append:
  "marker_test (Insens p) xs \<Longrightarrow> marker_test (Insens p) (xs @ ys)"
  by (simp add: fold_case_def str_includes_append)

lemma long_page_length: "length long_cloudflare_page = 50018"
  by (simp add: long_cloudflare_page_def)

lemma long_page_markers: "2 \<le> matched CLOUDFLARE_PATTERNS long_cloudflare_page"
proof -
  have a: "marker_test (Insens ''cloudflare'') long_cloudflare_page"
    unfolding long_cloudflare_page_def
    by (rule marker_test_append) (simp add: fold_case_def fold_char_def)
  have b: "marker_test (Insens ''ray id:'') long_cloudflare_page"
    unfolding long_cloudflare_page_def
    by (rule marker_test_append) (simp add: fold_case_def fold_char_def)
  have "2 \<le> length (filter (\<lambda>p. marker_test p long_cloudflare_page)
                 [Insens ''cloudflare'', Insens ''ray id:''])"
    using a b by simp
  also have "\<dots> \<le> matched CLOUDFLARE_PATTERNS long_cloudflare_page"
    unfolding matched_def CLOUDFLARE_PATTERNS_def
    by (simp del: marker_test.simps)
  finally show ?thesis .
qed

lemma status_429_blocked: "blocked (isBlocked body 429 u)"
  by (simp add: isBlocked_def)

text \<open>
  Claim C7 says that a provider verdict (Cloudflare, DataDome, PerimeterX, Akamai) needs
  two markers of that provider and a body below a length ceiling. The code does not do
  that for two of the four providers. A body consisting of the single PerimeterX marker
  \<open>perimeterx\<close> gets the PerimeterX verdict (\<open>access_denied\<close>, 0.85) with one marker
  matched; and a body of 50018 characters with two Cloudflare markers gets the Cloudflare
  verdict (\<open>cloudflare\<close>, 0.9), above the ceiling of 50000 of the other providers.
\<close>

theorem provider_block_counterexample:
  "isBlocked ''perimeterx'' 200 [] =
     \<lparr>blocked = True, reason = Some access_denied, confidence = 85 / 100\<rparr> \<and>
   matched PERIMETERX_PATTERNS ''perimeterx'' = 1 \<and>
   isBlocked long_cloudflare_page 200 [] =
     \<lparr>blocked = True, reason = Some cloudflare, confidence = 9 / 10\<rparr> \<and>
   length long_cloudflare_page = 50018"
proof -
  have "isBlocked ''perimeterx'' 200 [] =
          \<lparr>blocked = True, reason = Some access_denied, confidence = 85 / 100\<rparr>"
    by (simp add: detector_eval)
  moreover have "matched PERIMETERX_PATTERNS ''perimeterx'' = 1"
    by (simp add: detector_eval)
  moreover have "isBlocked long_cloudflare_page 200 [] =
          \<lparr>blocked = True, reason = Some cloudflare, confidence = 9 / 10\<rparr>"
    using long_page_markers long_page_length by (simp add: isBlocked_def)
  ultimately show ?thesis using long_page_length by simp
qed

text \<open>
  Claim C7, amended. The verdict \<open>datadome\<close> is given only when at least two DataDome
  markers match and the body is shorter than 50000; the Akamai verdict
  (\<open>access_denied\<close>, 0.8) only when at least two Akamai markers match and the body is
  shorter than 50000; the PerimeterX verdict (\<open>access_denied\<close>, 0.85) only when at least
  one PerimeterX marker matches and the body is shorter than 50000; the verdict
  \<open>cloudflare\<close> only when at least two Cloudflare markers match, or the status is 503
  and at least one matches, whatever the length of the body.
\<close>

theorem provider_block_conditions:
  "(reason (isBlocked body status u) = Some datadome \<longrightarrow>
      2 \<le> matched DATADOME_PATTERNS body \<and> length body < 50000) \<and>
   (isBlocked body status u = \<lparr>blocked = True, reason = Some access_denied, confidence = 8 / 10\<rparr> \<longrightarrow>
      2 \<le> matched AKAMAI_PATTERNS body \<and> length body < 50000) \<and>
   (isBlocked body status u = \<lparr>blocked = True, reason = Some access_denied, confidence = 85 / 100\<rparr> \<longrightarrow>
      1 \<le> matched PERIMETERX_PATTERNS body \<and> length body < 50000) \<and>
   (reason (isBlocked body status u) = Some cloudflare \<longrightarrow>
      (status = 503 \<and> 1 \<le> matched CLOUDFLARE_PATTERNS body) \<or>
      2 \<le> matched CLOUDFLARE_PATTERNS body)"
proof -
  have dd: "2 \<le> matched DATADOME_PATTERNS body \<and> length body < 50000"
    if "reason (isBlocked body status u) = Some datadome"
    using that by (simp add: isBlocked_def split: if_splits)
  have ak: "2 \<le> matched AKAMAI_PATTERNS body \<and> length body < 50000"
    if "isBlocked body status u =
          \<lparr>blocked = True, reason = Some access_denied, confidence = 8 / 10\<rparr>"
    using that by (simp add: isBlocked_def split: if_splits)
  have px: "1 \<le> matched PERIMETERX_PATTERNS body \<and> length body < 50000"
    if "isBlocked body status u =
          \<lparr>blocked = True, reason = Some access_denied, confidence = 85 / 100\<rparr>"
  proof -
    from that have "some_match PERIMETERX_PATTERNS body \<and> length body < 50000"
      by (simp add: isBlocked_def split: if_splits)
    then show ?thesis by (simp add: some_match_matched)
  qed
  have cf: "(status = 503 \<and> 1 \<le> matched CLOUDFLARE_PATTERNS body) \<or>
            2 \<le> matched CLOUDFLARE_PATTERNS body"
    if "reason (isBlocked body status u) = Some cloudflare"
  proof -
    from that have "(status = 503 \<and> some_match CLOUDFLARE_PATTERNS body) \<or>
                    2 \<le> matched CLOUDFLARE_PATTERNS body"
      by (simp add: isBlocked_def split: if_splits)
    then show ?thesis by (simp add: some_match_matched)
  qed
  from dd ak px cf show ?thesis by blast
qed

theorem provider_block_conditions_witness:
  "reason (isBlocked ''datadome dd.js'' 200 []) = Some datadome \<and>
   2 \<le> matched DATADOME_PATTERNS ''datadome dd.js'' \<and>
   isBlocked ''akamai _abck'' 200 [] =
     \<lparr>blocked = True, reason = Some access_denied, confidence = 8 / 10\<rparr> \<and>
   2 \<le> matched AKAMAI_PATTERNS ''akamai _abck'' \<and>
   isBlocked ''perimeterx'' 200 [] =
     \<lparr>blocked = True, reason = Some access_denied, confidence = 85 / 100\<rparr> \<and>
   1 \<le> matched PERIMETERX_PATTERNS ''perimeterx'' \<and>
   reason (isBlocked ''cloudflare ray id:'' 200 []) = Some cloudflare \<and>
   2 \<le> matched CLOUDFLARE_PATTERNS ''cloudflare ray id:''"
proof -
  have dd: "reason (isBlocked ''datadome dd.js'' 200 []) = Some datadome"
    by (simp add: detector_eval)
  have ak: "isBlocked ''akamai _abck'' 200 [] =
              \<lparr>blocked = True, reason = Some access_denied, confidence = 8 / 10\<rparr>"
    by (simp add: detector_eval)
  have px: "isBlocked ''perimeterx'' 200 [] =
              \<lparr>blocked = True, reason = Some access_denied, confidence = 85 / 100\<rparr>"
    by (simp add: detector_eval)
  have cf: "reason (isBlocked ''cloudflare ray id:'' 200 []) = Some cloudflare"
    by (simp add: detector_eval)
  from provider_block_conditions [of "''datadome dd.js''" 200 "[]"] dd
  have "2 \<le> matched DATADOME_PATTERNS ''datadome dd.js''" by blast
  moreover from provider_block_conditions [of "''akamai _abck''" 200 "[]"] ak
  have "2 \<le> matched AKAMAI_PATTERNS ''akamai _abck''" by blast
  moreover from provider_block_conditions [of "''perimeterx''" 200 "[]"] px
  have "1 \<le> matched PERIMETERX_PATTERNS ''perimeterx''" by blast
  moreover from provider_block_conditions [of "''cloudflare ray id:''" 200 "[]"] cf
  have "2 \<le> matched CLOUDFLARE_PATTERNS ''cloudflare ray id:''" by auto
  ultimately show ?thesis using dd ak px cf by blast
qed

subsection \<open>Engine waterfall\<close>

lemma ensureBrowserInstalled_keeps:
  "ensureBrowserInstalled env w e = (b, w') \<Longrightarrow>
   tried w' = tried w \<and> called w' = called w \<and> stats w' = stats w"
  by (auto simp: ensureBrowserInstalled_def split: if_splits option.splits)

lemma ensureBrowserInstalled_found:
  "isPlaywrightInstalled env e \<Longrightarrow> ensureBrowserInstalled env w e = (True, w)"
  by (simp add: ensureBrowserInstalled_def)

lemma call_engine_Inr:
  "call_engine env w u e opts = (Inr r, w') \<Longrightarrow>
   engine r = e \<and>
   (\<exists>fr. engine_fetch env e u opts = Inr fr \<and> html r = html fr \<and>
         statusCode r = statusCode fr \<and> finalUrl r = finalUrl fr \<and>
         res_blocked r = blocked (isBlocked (html fr) (statusCode fr) u))"
  by (auto simp: call_engine_def Let_def split: sum.splits)

lemma call_engine_state:
  "call_engine env w u e opts = (res, w') \<Longrightarrow>
   tried w' = tried w \<and> called w' = called w @ [e] \<and> stats w' = stats w"
  by (auto simp: call_engine_def Let_def split: sum.splits)

lemma call_engine_answer:
  "engine_fetch env e u opts = Inr fr \<Longrightarrow>
   \<exists>r w'. call_engine env w u e opts = (Inr r, w') \<and> engine r = e \<and> html r = html fr \<and>
          statusCode r = statusCode fr \<and>
          res_blocked r = blocked (isBlocked (html fr) (statusCode fr) u)"
  by (simp add: call_engine_def Let_def)

lemma fetchWithEngine_Inr:
  assumes "fetchWithEngine env w u e opts = (Inr r, w')"
  shows "engine r = e \<and> called w' = called w @ [e] \<and>
   (\<exists>fr. engine_fetch env e u opts = Inr fr \<and> html r = html fr \<and>
         statusCode r = statusCode fr \<and> finalUrl r = finalUrl fr \<and>
         res_blocked r = blocked (isBlocked (html fr) (statusCode fr) u))"
proof (cases "e = Playwright \<or> e = Rebrowser")
  case True
  obtain b w1 where eb: "ensureBrowserInstalled env (w\<lparr>tried := tried w @ [e]\<rparr>) e = (b, w1)"
    by (cases "ensureBrowserInstalled env (w\<lparr>tried := tried w @ [e]\<rparr>) e")
  with assms True have b and ce: "call_engine env w1 u e opts = (Inr r, w')"
    by (auto simp: fetchWithEngine_def Let_def split: if_splits bool.splits)
  from ensureBrowserInstalled_keeps [OF eb] have "called w1 = called w" by simp
  with call_engine_Inr [OF ce] call_engine_state [OF ce] show ?thesis by simp
next
  case False
  with assms have ce: "call_engine env (w\<lparr>tried := tried w @ [e]\<rparr>) u e opts = (Inr r, w')"
    by (simp add: fetchWithEngine_def Let_def)
  with call_engine_Inr [OF ce] call_engine_state [OF ce] show ?thesis by simp
qed

lemma fetchWithEngine_state:
  assumes "fetchWithEngine env w u e opts = (res, w')"
  shows "tried w' = tried w @ [e] \<and> stats w' = stats w \<and>
         (called w' = called w @ [e] \<or> called w' = called w)"
proof (cases "e = Playwright \<or> e = Rebrowser")
  case True
  obtain b w1 where eb: "ensureBrowserInstalled env (w\<lparr>tried := tried w @ [e]\<rparr>) e = (b, w1)"
    by (cases "ensureBrowserInstalled env (w\<lparr>tried := tried w @ [e]\<rparr>) e")
  from ensureBrowserInstalled_keeps [OF eb]
  have k: "tried w1 = tried w @ [e]" "called w1 = called w" "stats w1 = stats w" by simp_all
  show ?thesis
  proof (cases b)
    case True
    with assms eb \<open>e = Playwright \<or> e = Rebrowser\<close>
    have ce: "call_engine env w1 u e opts = (res, w')"
      by (auto simp: fetchWithEngine_def Let_def)
    from call_engine_state [OF ce] k show ?thesis by simp
  next
    case False
    with assms eb \<open>e = Playwright \<or> e = Rebrowser\<close> have "w' = w1"
      by (auto simp: fetchWithEngine_def Let_def)
    with k show ?thesis by simp
  qed
next
  case False
  with assms have ce: "call_engine env (w\<lparr>tried := tried w @ [e]\<rparr>) u e opts = (res, w')"
    by (simp add: fetchWithEngine_def Let_def)
  from call_engine_state [OF ce] show ?thesis by simp
qed

lemma fetchWithEngine_answer:
  assumes "e = Fetch \<or> isPlaywrightInstalled env e" and "engine_fetch env e u opts = Inr fr"
  shows "\<exists>r w'. fetchWithEngine env w u e opts = (Inr r, w') \<and> engine r = e \<and>
           html r = html fr \<and> statusCode r = statusCode fr \<and>
           res_blocked r = blocked (isBlocked (html fr) (statusCode fr) u)"
proof (cases "e = Playwright \<or> e = Rebrowser")
  case True
  with assms(1) have "isPlaywrightInstalled env e" by auto
  from ensureBrowserInstalled_found [OF this]
  have "fetchWithEngine env w u e opts = call_engine env (w\<lparr>tried := tried w @ [e]\<rparr>) u e opts"
    using True by (simp add: fetchWithEngine_def Let_def)
  with call_engine_answer [OF assms(2)] show ?thesis by simp
next
  case False
  then have "fetchWithEngine env w u e opts = call_engine env (w\<lparr>tried := tried w @ [e]\<rparr>) u e opts"
    by (simp add: fetchWithEngine_def Let_def)
  with call_engine_answer [OF assms(2)] show ?thesis by simp
qed

lemma try_engines_Inr:
  assumes "try_engines env w u opts cfgs = (Inr r, w')"
    and "\<forall>cfg\<in>set cfgs. name cfg = Fetch \<longrightarrow>
           (\<forall>fr. engine_fetch env Fetch u (with_timeout opts cfg) = Inr fr \<longrightarrow>
                 blocked (isBlocked (html fr) (statusCode fr) u))"
  shows "\<not> res_blocked r \<and> engine r \<noteq> Fetch"
  using assms
proof (induction cfgs arbitrary: w)
  case Nil
  then show ?case by simp
next
  case (Cons cfg rest)
  obtain res w1 where fw: "fetchWithEngine env w u (name cfg) (with_timeout opts cfg) = (res, w1)"
    by (cases "fetchWithEngine env w u (name cfg) (with_timeout opts cfg)")
  show ?case
  proof (cases res)
    case (Inl err)
    with Cons.prems(1) fw have "try_engines env w1 u opts rest = (Inr r, w')" by simp
    with Cons.IH Cons.prems(2) show ?thesis by simp
  next
    case (Inr result)
    show ?thesis
    proof (cases "res_blocked result")
      case True
      with Cons.prems(1) fw Inr have "try_engines env w1 u opts rest = (Inr r, w')" by simp
      with Cons.IH Cons.prems(2) show ?thesis by simp
    next
      case False
      with Cons.prems(1) fw Inr have r: "r = result" by simp
      from fw Inr have "fetchWithEngine env w u (name cfg) (with_timeout opts cfg) = (Inr result, w1)"
        by simp
      from fetchWithEngine_Inr [OF this] obtain fr where
        e: "engine result = name cfg"
        and fr: "engine_fetch env (name cfg) u (with_timeout opts cfg) = Inr fr"
        and b: "res_blocked result = blocked (isBlocked (html fr) (statusCode fr) u)"
        by blast
      have "name cfg \<noteq> Fetch"
      proof
        assume "name cfg = Fetch"
        with Cons.prems(2) fr have "blocked (isBlocked (html fr) (statusCode fr) u)" by simp
        with b False show False by simp
      qed
      with e r False show ?thesis by simp
    qed
  qed
qed

lemma try_engines_not_blocked:
  "try_engines env w u opts cfgs = (Inr r, w') \<Longrightarrow> \<not> res_blocked r"
proof (induction cfgs arbitrary: w)
  case Nil
  then show ?case by simp
next
  case (Cons cfg rest)
  then show ?case
    by (auto split: prod.splits sum.splits if_splits)
qed

text \<open>
  Claim C6. Without a forced engine a result that \<open>fetch\<close> returns is never blocked,
  and when the answer of the cheapest engine (the plain fetch) is classified as blocked,
  the result does not come from that engine. With a forced engine \<open>e\<close>, the waterfall hands exactly
  \<open>e\<close> to \<open>fetchWithEngine\<close>, no engine but \<open>e\<close> is called, no counter changes, a
  returned result comes from \<open>e\<close>, and where \<open>e\<close> answers (the browser runtime being
  there when \<open>e\<close> needs it) that answer is returned with the verdict of the block
  detector, blocked or not.
\<close>

theorem waterfall_escalation:
  "(eo_forceEngine opts = None \<and> waterfall_fetch api env w u opts = (Inr r, w') \<and>
    (\<forall>fr. engine_fetch env Fetch u (with_timeout opts (hd ENGINES)) = Inr fr \<longrightarrow>
          blocked (isBlocked (html fr) (statusCode fr) u)) \<longrightarrow>
    engine r \<noteq> Fetch) \<and>
   (eo_forceEngine opts = None \<and> waterfall_fetch api env w u opts = (Inr r, w') \<longrightarrow>
    \<not> res_blocked r) \<and>
   (eo_forceEngine opts = Some e \<and> waterfall_fetch api env w u opts = (res, w'') \<longrightarrow>
    tried w'' = tried w @ [e] \<and>
    (called w'' = called w @ [e] \<or> called w'' = called w) \<and>
    stats w'' = stats w \<and>
    (\<forall>r'. res = Inr r' \<longrightarrow> engine r' = e \<and> called w'' = called w @ [e]) \<and>
    (\<forall>fr. (e = Fetch \<or> isPlaywrightInstalled env e) \<and> engine_fetch env e u opts = Inr fr \<longrightarrow>
          (\<exists>r'. res = Inr r' \<and> html r' = html fr \<and> statusCode r' = statusCode fr \<and>
                res_blocked r' = blocked (isBlocked (html fr) (statusCode fr) u))))"
proof -
  have unblocked: "\<not> res_blocked r"
    if "eo_forceEngine opts = None" and "waterfall_fetch api env w u opts = (Inr r, w')"
    using that try_engines_not_blocked [of env w u opts _ r w']
    by (simp add: waterfall_fetch_def Let_def split: if_splits)
  have first: "engine r \<noteq> Fetch"
    if none: "eo_forceEngine opts = None"
      and ret: "waterfall_fetch api env w u opts = (Inr r, w')"
      and cheap: "\<forall>fr. engine_fetch env Fetch u (with_timeout opts (hd ENGINES)) = Inr fr \<longrightarrow>
                       blocked (isBlocked (html fr) (statusCode fr) u)"
  proof -
    let ?k = "if needsBrowser api u then 1 else 0 :: nat"
    from none ret have run: "try_engines env w u opts (drop ?k ENGINES) = (Inr r, w')"
      by (simp add: waterfall_fetch_def Let_def)
    have "\<forall>cfg\<in>set (drop ?k ENGINES). name cfg = Fetch \<longrightarrow> cfg = hd ENGINES"
      by (simp add: ENGINES_def)
    with cheap have "\<forall>cfg\<in>set (drop ?k ENGINES). name cfg = Fetch \<longrightarrow>
             (\<forall>fr. engine_fetch env Fetch u (with_timeout opts cfg) = Inr fr \<longrightarrow>
                   blocked (isBlocked (html fr) (statusCode fr) u))"
      by metis
    from try_engines_Inr [OF run this] show ?thesis by simp
  qed
  have second:
    "tried w'' = tried w @ [e] \<and>
     (called w'' = called w @ [e] \<or> called w'' = called w) \<and>
     stats w'' = stats w \<and>
     (\<forall>r'. res = Inr r' \<longrightarrow> engine r' = e \<and> called w'' = called w @ [e]) \<and>
     (\<forall>fr. (e = Fetch \<or> isPlaywrightInstalled env e) \<and> engine_fetch env e u opts = Inr fr \<longrightarrow>
           (\<exists>r'. res = Inr r' \<and> html r' = html fr \<and> statusCode r' = statusCode fr \<and>
                 res_blocked r' = blocked (isBlocked (html fr) (statusCode fr) u)))"
    if forced: "eo_forceEngine opts = Some e"
      and ret: "waterfall_fetch api env w u opts = (res, w'')"
  proof -
    from forced ret have run: "fetchWithEngine env w u e opts = (res, w'')"
      by (simp add: waterfall_fetch_def)
    have a: "\<forall>r'. res = Inr r' \<longrightarrow> engine r' = e \<and> called w'' = called w @ [e]"
      using run fetchWithEngine_Inr by blast
    have b: "\<exists>r'. res = Inr r' \<and> html r' = html fr \<and> statusCode r' = statusCode fr \<and>
                  res_blocked r' = blocked (isBlocked (html fr) (statusCode fr) u)"
      if "(e = Fetch \<or> isPlaywrightInstalled env e) \<and> engine_fetch env e u opts = Inr fr" for fr
      using that fetchWithEngine_answer [of e env u opts fr w] run by auto
    from fetchWithEngine_state [OF run] a b show ?thesis by blast
  qed
  from first unblocked second show ?thesis by blast
qed

lemmas waterfall_eval = waterfall_fetch_def needsBrowser_def robots_api_def table_api_def https_def
  ENGINES_def fetchWithEngine_def call_engine_def ensureBrowserInstalled_def throttled_env_def
  no_options_def with_timeout_def new_EngineWaterfall_def page_200_def page_429_def
  count_engine_def Let_def KNOWN_PROTECTED_DOMAINS_def endsWith_def

theorem waterfall_escalation_witness:
  "(\<exists>r w'. waterfall_fetch robots_api throttled_env new_EngineWaterfall
             ''https://example.com/'' no_options = (Inr r, w') \<and>
           engine r \<noteq> Fetch \<and> \<not> res_blocked r) \<and>
   (\<exists>r w'. waterfall_fetch robots_api throttled_env new_EngineWaterfall
             ''https://example.com/'' (no_options\<lparr>eo_forceEngine := Some Fetch\<rparr>) = (Inr r, w') \<and>
           engine r = Fetch \<and> res_blocked r \<and> tried w' = [Fetch] \<and> called w' = [Fetch])"
proof -
  let ?u = "''https://example.com/''"
  let ?forced = "no_options\<lparr>eo_forceEngine := Some Fetch\<rparr>"
  have "\<exists>r w'. waterfall_fetch robots_api throttled_env new_EngineWaterfall ?u no_options = (Inr r, w')"
    by (simp add: waterfall_eval detector_eval)
  then obtain r w' where
    run: "waterfall_fetch robots_api throttled_env new_EngineWaterfall ?u no_options = (Inr r, w')"
    by blast
  have none: "eo_forceEngine no_options = None" by (simp add: no_options_def)
  have cheap: "\<forall>fr. engine_fetch throttled_env Fetch ?u (with_timeout no_options (hd ENGINES)) = Inr fr \<longrightarrow>
                    blocked (isBlocked (html fr) (statusCode fr) ?u)"
    by (simp add: throttled_env_def page_429_def status_429_blocked)
  from waterfall_escalation [where opts = no_options and api = robots_api and env = throttled_env
         and w = new_EngineWaterfall and u = ?u and r = r and w' = w'] none run cheap
  have first: "engine r \<noteq> Fetch \<and> \<not> res_blocked r" by blast
  obtain res w'' where
    run2: "waterfall_fetch robots_api throttled_env new_EngineWaterfall ?u ?forced = (res, w'')"
    by (cases "waterfall_fetch robots_api throttled_env new_EngineWaterfall ?u ?forced")
  have forced: "eo_forceEngine ?forced = Some Fetch" by simp
  have answer: "engine_fetch throttled_env Fetch ?u ?forced = Inr page_429"
    by (simp add: throttled_env_def)
  from waterfall_escalation [where opts = ?forced and api = robots_api and env = throttled_env
         and w = new_EngineWaterfall and u = ?u and e = Fetch and res = res and w'' = w'']
       forced run2
  have t: "tried w'' = tried new_EngineWaterfall @ [Fetch]"
    and r': "\<forall>r'. res = Inr r' \<longrightarrow> engine r' = Fetch \<and> called w'' = called new_EngineWaterfall @ [Fetch]"
    and a: "\<forall>fr. (Fetch = Fetch \<or> isPlaywrightInstalled throttled_env Fetch) \<and>
                 engine_fetch throttled_env Fetch ?u ?forced = Inr fr \<longrightarrow>
              (\<exists>r'. res = Inr r' \<and> html r' = html fr \<and> statusCode r' = statusCode fr \<and>
                    res_blocked r' = blocked (isBlocked (html fr) (statusCode fr) ?u))"
    by blast+
  from a answer obtain r2 where
    r2: "res = Inr r2" "res_blocked r2 = blocked (isBlocked (html page_429) (statusCode page_429) ?u)"
    by blast
  from r2(2) have "res_blocked r2" by (simp add: page_429_def status_429_blocked)
  with r2(1) r' t run2 have
    "waterfall_fetch robots_api throttled_env new_EngineWaterfall ?u ?forced = (Inr r2, w'') \<and>
     engine r2 = Fetch \<and> res_blocked r2 \<and> tried w'' = [Fetch] \<and> called w'' = [Fetch]"
    by (simp add: new_EngineWaterfall_def)
  with first run show ?thesis by blast
qed

subsection \<open>Sitemap discovery\<close>

lemma expand_index_props:
  "expand_index api net us urls fetched = (urls', fetched') \<Longrightarrow> length urls \<le> MAX_URLS \<Longrightarrow>
   length urls' \<le> MAX_URLS \<and>
   (\<exists>k \<le> length us. fetched' = fetched @ take k us) \<and>
   (\<exists>new. urls' = urls @ new \<and>
      set new \<subseteq> (\<Union>c \<in> set (drop (length fetched) fetched').
                      case fetchSitemap net c of None \<Rightarrow> {} | Some sub \<Rightarrow> set (parseUrlset api sub)))"
proof (induction us arbitrary: urls fetched)
  case Nil
  then show ?case by simp
next
  case (Cons c rest)
  show ?case
  proof (cases "length urls \<ge> MAX_URLS")
    case True
    with Cons.prems show ?thesis by auto
  next
    case False
    let ?sub = "case fetchSitemap net c of None \<Rightarrow> [] | Some s \<Rightarrow> if s = [] then [] else parseUrlset api s"
    let ?add = "take (MAX_URLS - length urls) ?sub"
    have step: "expand_index api net (c # rest) urls fetched =
                expand_index api net rest (urls @ ?add) (fetched @ [c])"
      using False by (simp add: Let_def split: option.splits)
    with Cons.prems have rec: "expand_index api net rest (urls @ ?add) (fetched @ [c]) = (urls', fetched')"
      by simp
    have len: "length (urls @ ?add) \<le> MAX_URLS" using False by simp
    from Cons.IH [OF rec len] obtain k new where
      l: "length urls' \<le> MAX_URLS" and k: "k \<le> length rest" "fetched' = (fetched @ [c]) @ take k rest"
      and n: "urls' = (urls @ ?add) @ new"
             "set new \<subseteq> (\<Union>c \<in> set (drop (length (fetched @ [c])) fetched').
                      case fetchSitemap net c of None \<Rightarrow> {} | Some sub \<Rightarrow> set (parseUrlset api sub))"
      by blast
    have f: "fetched' = fetched @ take (Suc k) (c # rest)" using k by simp
    have d: "drop (length fetched) fetched' = c # take k rest" using k by simp
    have d': "drop (length (fetched @ [c])) fetched' = take k rest" using k by simp
    have "set ?add \<subseteq> (case fetchSitemap net c of None \<Rightarrow> {} | Some sub \<Rightarrow> set (parseUrlset api sub))"
      using set_take_subset [of "MAX_URLS - length urls" ?sub]
      by (auto split: option.splits if_splits)
    with n(2) have "set (?add @ new) \<subseteq> (\<Union>c \<in> set (drop (length fetched) fetched').
                      case fetchSitemap net c of None \<Rightarrow> {} | Some sub \<Rightarrow> set (parseUrlset api sub))"
      unfolding d d' by auto
    moreover have "urls' = urls @ (?add @ new)" using n(1) by simp
    moreover have "Suc k \<le> length (c # rest)" using k by simp
    ultimately show ?thesis using l f by blast
  qed
qed

lemma trim_id: "s \<noteq> [] \<Longrightarrow> \<not> is_space (hd s) \<Longrightarrow> \<not> is_space (last s) \<Longrightarrow> trim s = s"
proof -
  assume a: "s \<noteq> []" "\<not> is_space (hd s)" "\<not> is_space (last s)"
  then have "dropWhile is_space s = s" by (cases s) auto
  moreover from a have "dropWhile is_space (rev s) = rev s"
    by (cases "rev s") (auto simp: hd_rev)
  ultimately show ?thesis by (simp add: trim_def)
qed

lemma letters_not_space: "\<forall>b\<in>set ''abcdefghijklmnopqrstuvwxy''. \<not> is_space b"
  by (simp add: is_space_def)

lemma in_grid:
  "p \<in> set (concat (map (\<lambda>a. map (g a) ys) xs)) \<Longrightarrow> \<exists>a b. b \<in> set ys \<and> p = g a b"
  by auto

lemma length_grid: "length (concat (map (\<lambda>a. map (g a) ys) xs)) = length xs * length ys"
  by (induction xs) auto

lemma child_pages_trim:
  assumes "drop 8 content \<noteq> []" and "\<not> is_space (hd (drop 8 content))"
  shows "filter (\<lambda>loc. loc \<noteq> []) (map trim (child_pages content)) = child_pages content"
proof -
  have t: "trim p = p \<and> p \<noteq> []" if "p \<in> set (child_pages content)" for p
  proof -
    from that have "\<exists>a b. b \<in> set ''abcdefghijklmnopqrstuvwxy'' \<and>
                        p = drop 8 content @ ''/'' @ [a, b]"
      unfolding child_pages_def by (rule in_grid)
    then obtain a b where p: "p = drop 8 content @ ''/'' @ [a, b]"
      and b: "b \<in> set ''abcdefghijklmnopqrstuvwxy''"
      by blast
    from b letters_not_space have "\<not> is_space b" by blast
    with assms p have "p \<noteq> []" "\<not> is_space (hd p)" "\<not> is_space (last p)" by simp_all
    with trim_id show ?thesis by blast
  qed
  then have "map trim (child_pages content) = child_pages content"
    by (simp add: map_idI)
  moreover from t have "filter (\<lambda>loc. loc \<noteq> []) (child_pages content) = child_pages content"
    by (simp add: filter_id_conv)
  ultimately show ?thesis by simp
qed

lemma child_pages_length: "length (child_pages content) = 500"
  unfolding child_pages_def length_grid by simp

lemma child_sitemap_500:
  assumes "c \<in> set child_sitemaps"
  shows "\<exists>sub. fetchSitemap sitemap_net c = Some sub \<and> length (parseUrlset sitemap_api sub) = 500"
proof -
  from assms obtain d where c: "c = ''https://example.com/sitemap-'' @ [d] @ ''.xml''"
    unfolding child_sitemaps_def by auto
  have f: "fetchSitemap sitemap_net c = Some (''<urlset>'' @ c)"
    using assms by (simp add: fetchSitemap_def sitemap_net_def c)
  have "parseUrlset sitemap_api (''<urlset>'' @ c) =
        filter (\<lambda>loc. loc \<noteq> []) (map trim (child_pages (''<urlset>'' @ c)))"
    by (simp add: parseUrlset_def sitemap_api_def)
  also have "\<dots> = child_pages (''<urlset>'' @ c)"
    by (rule child_pages_trim) (simp_all add: c is_space_def)
  finally show ?thesis using f child_pages_length by simp
qed

lemma sitemap_index_children: "parseSitemapIndex sitemap_api ''<sitemapindex>'' = child_sitemaps"
  by code_simp

text \<open>
  Claim C8. \<open>parseSitemapContent\<close> returns at most 200 URLs. For a sitemap index it
  requests child sitemaps only among the first two entries of the index, in order (the
  second one is not requested once 200 URLs are gathered), and every URL returned comes
  from a child sitemap it requested; a plain urlset gives its first 200 URLs and no
  request.
\<close>

theorem sitemap_cap:
  assumes "parseSitemapContent api net content = (urls, fetched)"
  shows "length urls \<le> 200 \<and>
   (str_includes content ''<sitemapindex'' \<longrightarrow>
      (\<exists>k\<le>2. fetched = take k (parseSitemapIndex api content)) \<and>
      set urls \<subseteq> (\<Union>c \<in> set fetched.
                     case fetchSitemap net c of None \<Rightarrow> {} | Some sub \<Rightarrow> set (parseUrlset api sub))) \<and>
   (\<not> str_includes content ''<sitemapindex'' \<longrightarrow>
      fetched = [] \<and> urls = take 200 (parseUrlset api content))"
proof (cases "str_includes content ''<sitemapindex''")
  case False
  with assms show ?thesis by (auto simp: parseSitemapContent_def MAX_URLS_def)
next
  case True
  let ?idx = "parseSitemapIndex api content"
  obtain us fs where ex: "expand_index api net (take 2 ?idx) [] [] = (us, fs)"
    by (cases "expand_index api net (take 2 ?idx) [] []")
  with assms True have r: "urls = take MAX_URLS us" "fetched = fs"
    by (simp_all add: parseSitemapContent_def Let_def)
  from expand_index_props [OF ex] obtain k new where
    l: "length us \<le> MAX_URLS" and k: "k \<le> length (take 2 ?idx)" "fs = take k (take 2 ?idx)"
    and n: "us = new" "set new \<subseteq> (\<Union>c \<in> set fs.
                      case fetchSitemap net c of None \<Rightarrow> {} | Some sub \<Rightarrow> set (parseUrlset api sub))"
    by auto
  from k have "fs = take (min k 2) ?idx" by (simp add: min.commute)
  then have "\<exists>k\<le>2. fetched = take k ?idx" using r(2) by (metis min.cobounded2)
  moreover from l r have "urls = us" "length urls \<le> 200" by (simp_all add: MAX_URLS_def)
  ultimately show ?thesis using True n r by auto
qed

text \<open>
  The example of the claim: an index of ten child sitemaps with 500 URLs each gives at
  most 200 URLs, from requests among the first two children.
\<close>

theorem sitemap_cap_witness:
  "length (parseSitemapIndex sitemap_api ''<sitemapindex>'') = 10 \<and>
   list_all (\<lambda>c. \<exists>sub. fetchSitemap sitemap_net c = Some sub \<and>
                       length (parseUrlset sitemap_api sub) = 500)
     (parseSitemapIndex sitemap_api ''<sitemapindex>'') \<and>
   (\<exists>urls fetched.
      parseSitemapContent sitemap_api sitemap_net ''<sitemapindex>'' = (urls, fetched) \<and>
      length urls \<le> 200 \<and>
      (\<exists>k\<le>2. fetched = take k (parseSitemapIndex sitemap_api ''<sitemapindex>'')) \<and>
      set urls \<subseteq> (\<Union>c \<in> set fetched.
                     case fetchSitemap sitemap_net c of
                       None \<Rightarrow> {}
                     | Some sub \<Rightarrow> set (parseUrlset sitemap_api sub)))"
proof -
  obtain urls fetched where
    run: "parseSitemapContent sitemap_api sitemap_net ''<sitemapindex>'' = (urls, fetched)"
    by (cases "parseSitemapContent sitemap_api sitemap_net ''<sitemapindex>''")
  have idx: "str_includes ''<sitemapindex>'' ''<sitemapindex''" by simp
  have ten: "length (parseSitemapIndex sitemap_api ''<sitemapindex>'') = 10"
    unfolding sitemap_index_children by code_simp
  from sitemap_cap [OF run] idx
  have "length urls \<le> 200 \<and>
        (\<exists>k\<le>2. fetched = take k (parseSitemapIndex sitemap_api ''<sitemapindex>'')) \<and>
        set urls \<subseteq> (\<Union>c \<in> set fetched.
                     case fetchSitemap sitemap_net c of
                       None \<Rightarrow> {}
                     | Some sub \<Rightarrow> set (parseUrlset sitemap_api sub))"
    by blast
  with run ten child_sitemap_500 show ?thesis
    unfolding sitemap_index_children list_all_iff by blast
qed

subsection \<open>Dedup tracker\<close>

lemmas locale_eval = extractLocale_def locale_from_start_def locale_from_mid_def
  locale_from_query_def locale_at_def lookahead_def is_letter_def is_sep_def fold_char_def
  strip_locale_start_def strip_locale_mid_def lang_param_def truthy_param_def delete_params_def
  toLowerCase_def lower_char_def LANGUAGE_CODES_def COUNTRY_CODES_def FALSE_POSITIVES_def Let_def

lemma extractLocale_en:
  assumes "newURL api u = Some p" and "pathname p = ''/en/docs/guide''" and "searchParams p = []"
    and "params_toString api [] = []"
  shows "extractLocale api u =
           \<lparr>hasLocale = True, locale_code = Some ''en'', language = Some ''en'', country = None,
            canonicalPath = ''/docs/guide''\<rparr>"
  using assms by (simp add: locale_eval)

lemma extractLocale_de:
  assumes "newURL api u = Some p" and "pathname p = ''/de/docs/guide''" and "searchParams p = []"
    and "params_toString api [] = []"
  shows "extractLocale api u =
           \<lparr>hasLocale = True, locale_code = Some ''de'', language = Some ''de'', country = None,
            canonicalPath = ''/docs/guide''\<rparr>"
  using assms by (simp add: locale_eval)

lemma hasLocale_iff: "hasLocale (extractLocale api u) \<longleftrightarrow> locale_code (extractLocale api u) \<noteq> None"
  by (simp add: extractLocale_def Let_def split: option.splits)

lemma shouldSkip_canonicalPaths:
  assumes "shouldSkip api t u = Inr (res, t')"
  shows "preferredLanguage t' = preferredLanguage t \<and>
    (\<forall>k. canonicalPaths t' k = canonicalPaths t k \<or>
         (canonicalPaths t' k = Some \<lparr>url = u, rep_locale = locale_code (extractLocale api u)\<rparr> \<and>
          \<not> skip res \<and>
          (canonicalPaths t k = None \<or> \<not> hasLocale (extractLocale api u) \<or>
           (language (extractLocale api u) = Some (preferredLanguage t) \<and>
            (\<forall>rep. canonicalPaths t k = Some rep \<longrightarrow>
                   language (extractLocale api (url rep)) \<noteq> Some (preferredLanguage t))))))"
  using assms
  by (auto simp: shouldSkip_def skipped_def Let_def split: option.splits if_splits)

lemma shouldSkip_plain:
  assumes "newURL api u = Some p" and "\<not> hasLocale (extractLocale api u)"
  shows "shouldSkip api t u =
     Inr (\<lparr>skip = False, skip_reason = None\<rparr>,
          t\<lparr>canonicalPaths := (canonicalPaths t)
                 (hostname p @ canonicalPath (extractLocale api u) \<mapsto> \<lparr>url = u, rep_locale = None\<rparr>),
            dedup_stats := (dedup_stats t)\<lparr>total := total (dedup_stats t) + 1\<rparr>\<rparr>)"
proof -
  from assms(2) have "locale_code (extractLocale api u) = None" by (simp add: hasLocale_iff)
  with assms show ?thesis
    by (simp add: shouldSkip_def Let_def split: option.splits)
qed

lemma shouldSkip_skip_only_locale:
  assumes "shouldSkip api t u = Inr (res, t')" and "skip res"
  shows "hasLocale (extractLocale api u) \<and> skip_reason res = Some (locale_reason (extractLocale api u))"
  using assms
  by (auto simp: shouldSkip_def skipped_def Let_def split: option.splits if_splits)

lemma shouldSkip_error: "newURL api u = None \<Longrightarrow> shouldSkip api t u = Inl TypeError"
  by (simp add: shouldSkip_def Let_def)

lemma shouldSkip_de_after_en:
  assumes en: "newURL api en = Some pe" "pathname pe = ''/en/docs/guide''" "searchParams pe = []"
    and de: "newURL api de = Some pd" "pathname pd = ''/de/docs/guide''" "searchParams pd = []"
    and q: "params_toString api [] = []"
    and pref: "preferredLanguage t = ''en''"
    and rep: "canonicalPaths t (hostname pd @ ''/docs/guide'') = Some rep" "url rep = en"
  shows "shouldSkip api t de =
           Inr (\<lparr>skip = True, skip_reason = Some ''locale:de''\<rparr>,
                t\<lparr>dedup_stats := (dedup_stats t)\<lparr>localeSkipped := localeSkipped (dedup_stats t) + 1\<rparr>\<rparr>)"
  using de(1) rep pref extractLocale_en [OF en q] extractLocale_de [OF de q]
  by (simp add: shouldSkip_def skipped_def locale_reason_def Let_def)

lemma shouldSkip_en_after_de:
  assumes en: "newURL api en = Some pe" "pathname pe = ''/en/docs/guide''" "searchParams pe = []"
    and de: "newURL api de = Some pd" "pathname pd = ''/de/docs/guide''" "searchParams pd = []"
    and q: "params_toString api [] = []"
    and pref: "preferredLanguage t = ''en''"
    and rep: "canonicalPaths t (hostname pe @ ''/docs/guide'') = Some rep" "url rep = de"
  shows "shouldSkip api t en =
           Inr (\<lparr>skip = False, skip_reason = None\<rparr>,
                t\<lparr>canonicalPaths := (canonicalPaths t)
                       (hostname pe @ ''/docs/guide'' \<mapsto> \<lparr>url = en, rep_locale = Some ''en''\<rparr>)\<rparr>)"
  using en(1) rep pref extractLocale_en [OF en q] extractLocale_de [OF de q]
  by (simp add: shouldSkip_def skipped_def locale_reason_def Let_def)

lemma shouldSkip_first:
  assumes "newURL api u = Some p"
    and "canonicalPaths t (hostname p @ canonicalPath (extractLocale api u)) = None"
  shows "shouldSkip api t u =
     Inr (\<lparr>skip = False, skip_reason = None\<rparr>,
          t\<lparr>canonicalPaths := (canonicalPaths t)
                 (hostname p @ canonicalPath (extractLocale api u) \<mapsto>
                    \<lparr>url = u, rep_locale = locale_code (extractLocale api u)\<rparr>),
            dedup_stats := (dedup_stats t)\<lparr>total := total (dedup_stats t) + 1\<rparr>\<rparr>)"
  using assms by (simp add: shouldSkip_def Let_def)

text \<open>
  Claim C5. With preferred language \<open>en\<close>, on one host: when the representative of the
  key of \<open>/docs/guide\<close> is the URL with path \<open>/en/docs/guide\<close>, \<open>shouldSkip\<close> on
  the URL with path \<open>/de/docs/guide\<close> answers skip with reason \<open>locale:de\<close> and leaves
  the representative; when the representative is the German URL, \<open>shouldSkip\<close> on the
  English one answers no skip and makes the English URL the representative; on a free
  key either URL is recorded. In general the tracker holds one representative per key (a
  map), an entry only ever changes to the URL at hand, and an existing entry is replaced
  only by a URL without locale or by a URL in the preferred language whose predecessor
  is not in the preferred language.
\<close>

theorem locale_suppression:
  "(newURL api en = Some pe \<and> hostname pe = h \<and> pathname pe = ''/en/docs/guide'' \<and>
    searchParams pe = [] \<and>
    newURL api de = Some pd \<and> hostname pd = h \<and> pathname pd = ''/de/docs/guide'' \<and>
    searchParams pd = [] \<and>
    params_toString api [] = [] \<and> preferredLanguage t = ''en'' \<longrightarrow>
    (\<forall>rep. canonicalPaths t (h @ ''/docs/guide'') = Some rep \<and> url rep = en \<longrightarrow>
       shouldSkip api t de =
         Inr (\<lparr>skip = True, skip_reason = Some ''locale:de''\<rparr>,
              t\<lparr>dedup_stats := (dedup_stats t)\<lparr>localeSkipped := localeSkipped (dedup_stats t) + 1\<rparr>\<rparr>)) \<and>
    (\<forall>rep. canonicalPaths t (h @ ''/docs/guide'') = Some rep \<and> url rep = de \<longrightarrow>
       shouldSkip api t en =
         Inr (\<lparr>skip = False, skip_reason = None\<rparr>,
              t\<lparr>canonicalPaths := (canonicalPaths t)
                     (h @ ''/docs/guide'' \<mapsto> \<lparr>url = en, rep_locale = Some ''en''\<rparr>)\<rparr>)) \<and>
    (canonicalPaths t (h @ ''/docs/guide'') = None \<longrightarrow>
       shouldSkip api t en =
         Inr (\<lparr>skip = False, skip_reason = None\<rparr>,
              t\<lparr>canonicalPaths := (canonicalPaths t)
                     (h @ ''/docs/guide'' \<mapsto> \<lparr>url = en, rep_locale = Some ''en''\<rparr>),
                dedup_stats := (dedup_stats t)\<lparr>total := total (dedup_stats t) + 1\<rparr>\<rparr>) \<and>
       shouldSkip api t de =
         Inr (\<lparr>skip = False, skip_reason = None\<rparr>,
              t\<lparr>canonicalPaths := (canonicalPaths t)
                     (h @ ''/docs/guide'' \<mapsto> \<lparr>url = de, rep_locale = Some ''de''\<rparr>),
                dedup_stats := (dedup_stats t)\<lparr>total := total (dedup_stats t) + 1\<rparr>\<rparr>))) \<and>
   (shouldSkip api t u = Inr (res, t') \<longrightarrow>
    preferredLanguage t' = preferredLanguage t \<and>
    (\<forall>k. canonicalPaths t' k = canonicalPaths t k \<or>
         (canonicalPaths t' k = Some \<lparr>url = u, rep_locale = locale_code (extractLocale api u)\<rparr> \<and>
          \<not> skip res \<and>
          (canonicalPaths t k = None \<or> \<not> hasLocale (extractLocale api u) \<or>
           (language (extractLocale api u) = Some (preferredLanguage t) \<and>
            (\<forall>rep. canonicalPaths t k = Some rep \<longrightarrow>
                   language (extractLocale api (url rep)) \<noteq> Some (preferredLanguage t)))))))"
proof -
  have scenario:
    "(\<forall>rep. canonicalPaths t (h @ ''/docs/guide'') = Some rep \<and> url rep = en \<longrightarrow>
       shouldSkip api t de =
         Inr (\<lparr>skip = True, skip_reason = Some ''locale:de''\<rparr>,
              t\<lparr>dedup_stats := (dedup_stats t)\<lparr>localeSkipped := localeSkipped (dedup_stats t) + 1\<rparr>\<rparr>)) \<and>
    (\<forall>rep. canonicalPaths t (h @ ''/docs/guide'') = Some rep \<and> url rep = de \<longrightarrow>
       shouldSkip api t en =
         Inr (\<lparr>skip = False, skip_reason = None\<rparr>,
              t\<lparr>canonicalPaths := (canonicalPaths t)
                     (h @ ''/docs/guide'' \<mapsto> \<lparr>url = en, rep_locale = Some ''en''\<rparr>)\<rparr>)) \<and>
    (canonicalPaths t (h @ ''/docs/guide'') = None \<longrightarrow>
       shouldSkip api t en =
         Inr (\<lparr>skip = False, skip_reason = None\<rparr>,
              t\<lparr>canonicalPaths := (canonicalPaths t)
                     (h @ ''/docs/guide'' \<mapsto> \<lparr>url = en, rep_locale = Some ''en''\<rparr>),
                dedup_stats := (dedup_stats t)\<lparr>total := total (dedup_stats t) + 1\<rparr>\<rparr>) \<and>
       shouldSkip api t de =
         Inr (\<lparr>skip = False, skip_reason = None\<rparr>,
              t\<lparr>canonicalPaths := (canonicalPaths t)
                     (h @ ''/docs/guide'' \<mapsto> \<lparr>url = de, rep_locale = Some ''de''\<rparr>),
                dedup_stats := (dedup_stats t)\<lparr>total := total (dedup_stats t) + 1\<rparr>\<rparr>))"
    if en: "newURL api en = Some pe" "pathname pe = ''/en/docs/guide''" "searchParams pe = []"
      and he: "hostname pe = h"
      and de: "newURL api de = Some pd" "pathname pd = ''/de/docs/guide''" "searchParams pd = []"
      and hd: "hostname pd = h"
      and q: "params_toString api [] = []" and pref: "preferredLanguage t = ''en''"
  proof -
    note le = extractLocale_en [OF en q] and ld = extractLocale_de [OF de q]
    have a: "shouldSkip api t de =
         Inr (\<lparr>skip = True, skip_reason = Some ''locale:de''\<rparr>,
              t\<lparr>dedup_stats := (dedup_stats t)\<lparr>localeSkipped := localeSkipped (dedup_stats t) + 1\<rparr>\<rparr>)"
      if "canonicalPaths t (h @ ''/docs/guide'') = Some rep \<and> url rep = en" for rep
      using that shouldSkip_de_after_en [OF en de q pref, of rep] hd by simp
    have b: "shouldSkip api t en =
         Inr (\<lparr>skip = False, skip_reason = None\<rparr>,
              t\<lparr>canonicalPaths := (canonicalPaths t)
                     (h @ ''/docs/guide'' \<mapsto> \<lparr>url = en, rep_locale = Some ''en''\<rparr>)\<rparr>)"
      if "canonicalPaths t (h @ ''/docs/guide'') = Some rep \<and> url rep = de" for rep
      using that shouldSkip_en_after_de [OF en de q pref, of rep] he by simp
    have c: "shouldSkip api t en =
         Inr (\<lparr>skip = False, skip_reason = None\<rparr>,
              t\<lparr>canonicalPaths := (canonicalPaths t)
                     (h @ ''/docs/guide'' \<mapsto> \<lparr>url = en, rep_locale = Some ''en''\<rparr>),
                dedup_stats := (dedup_stats t)\<lparr>total := total (dedup_stats t) + 1\<rparr>\<rparr>)"
      if "canonicalPaths t (h @ ''/docs/guide'') = None"
      using that shouldSkip_first [OF en(1), of t] he le by simp
    have d: "shouldSkip api t de =
         Inr (\<lparr>skip = False, skip_reason = None\<rparr>,
              t\<lparr>canonicalPaths := (canonicalPaths t)
                     (h @ ''/docs/guide'' \<mapsto> \<lparr>url = de, rep_locale = Some ''de''\<rparr>),
                dedup_stats := (dedup_stats t)\<lparr>total := total (dedup_stats t) + 1\<rparr>\<rparr>)"
      if "canonicalPaths t (h @ ''/docs/guide'') = None"
      using that shouldSkip_first [OF de(1), of t] hd ld by simp
    from a b c d show ?thesis by blast
  qed
  from scenario shouldSkip_canonicalPaths [of api t u res t'] show ?thesis by blast
qed

lemmas dedup_table = dedup_api_def table_api_def https_def guide_en_def guide_de_def
  guide_plain_def simple_query_def

theorem locale_suppression_witness:
  "(\<exists>t1 t2.
      shouldSkip dedup_api (new_DedupTracker ''en'') guide_en =
        Inr (\<lparr>skip = False, skip_reason = None\<rparr>, t1) \<and>
      shouldSkip dedup_api t1 guide_de =
        Inr (\<lparr>skip = True, skip_reason = Some ''locale:de''\<rparr>, t2) \<and>
      map_option url (canonicalPaths t2 ''example.com/docs/guide'') = Some guide_en) \<and>
   (\<exists>t1 t2.
      shouldSkip dedup_api (new_DedupTracker ''en'') guide_de =
        Inr (\<lparr>skip = False, skip_reason = None\<rparr>, t1) \<and>
      map_option url (canonicalPaths t1 ''example.com/docs/guide'') = Some guide_de \<and>
      shouldSkip dedup_api t1 guide_en = Inr (\<lparr>skip = False, skip_reason = None\<rparr>, t2) \<and>
      map_option url (canonicalPaths t2 ''example.com/docs/guide'') = Some guide_en)"
proof -
  let ?pe = "snd (https ''example.com'' ''/en/docs/guide'')"
  let ?pd = "snd (https ''example.com'' ''/de/docs/guide'')"
  let ?t0 = "new_DedupTracker ''en''"
  let ?key = "''example.com'' @ ''/docs/guide''"
  have hyp: "newURL dedup_api guide_en = Some ?pe \<and> hostname ?pe = ''example.com'' \<and>
             pathname ?pe = ''/en/docs/guide'' \<and> searchParams ?pe = [] \<and>
             newURL dedup_api guide_de = Some ?pd \<and> hostname ?pd = ''example.com'' \<and>
             pathname ?pd = ''/de/docs/guide'' \<and> searchParams ?pd = [] \<and>
             params_toString dedup_api [] = []"
    by (simp add: dedup_table)
  have p0: "preferredLanguage ?t0 = ''en''" by (simp add: new_DedupTracker_def)
  have fresh: "canonicalPaths ?t0 ?key = None" by (simp add: new_DedupTracker_def)
  let ?e1 = "?t0\<lparr>canonicalPaths := (canonicalPaths ?t0)
                   (?key \<mapsto> \<lparr>url = guide_en, rep_locale = Some ''en''\<rparr>),
                dedup_stats := (dedup_stats ?t0)\<lparr>total := total (dedup_stats ?t0) + 1\<rparr>\<rparr>"
  let ?d1 = "?t0\<lparr>canonicalPaths := (canonicalPaths ?t0)
                   (?key \<mapsto> \<lparr>url = guide_de, rep_locale = Some ''de''\<rparr>),
                dedup_stats := (dedup_stats ?t0)\<lparr>total := total (dedup_stats ?t0) + 1\<rparr>\<rparr>"
  have pe1: "preferredLanguage ?e1 = ''en''" and pd1: "preferredLanguage ?d1 = ''en''"
    by (simp_all add: new_DedupTracker_def)
  from locale_suppression [where api = dedup_api and en = guide_en and de = guide_de
         and pe = ?pe and pd = ?pd and h = "''example.com''" and t = ?t0] hyp p0 fresh
  have first_en: "shouldSkip dedup_api ?t0 guide_en = Inr (\<lparr>skip = False, skip_reason = None\<rparr>, ?e1)"
    and first_de: "shouldSkip dedup_api ?t0 guide_de = Inr (\<lparr>skip = False, skip_reason = None\<rparr>, ?d1)"
    by blast+
  have rep_en: "canonicalPaths ?e1 ?key = Some \<lparr>url = guide_en, rep_locale = Some ''en''\<rparr> \<and>
                url \<lparr>url = guide_en, rep_locale = Some ''en''\<rparr> = guide_en"
    by simp
  have rep_de: "canonicalPaths ?d1 ?key = Some \<lparr>url = guide_de, rep_locale = Some ''de''\<rparr> \<and>
                url \<lparr>url = guide_de, rep_locale = Some ''de''\<rparr> = guide_de"
    by simp
  from locale_suppression [where api = dedup_api and en = guide_en and de = guide_de
         and pe = ?pe and pd = ?pd and h = "''example.com''" and t = ?e1] hyp pe1 rep_en
  have then_de: "shouldSkip dedup_api ?e1 guide_de =
         Inr (\<lparr>skip = True, skip_reason = Some ''locale:de''\<rparr>,
              ?e1\<lparr>dedup_stats := (dedup_stats ?e1)\<lparr>localeSkipped := localeSkipped (dedup_stats ?e1) + 1\<rparr>\<rparr>)"
    by blast
  from locale_suppression [where api = dedup_api and en = guide_en and de = guide_de
         and pe = ?pe and pd = ?pd and h = "''example.com''" and t = ?d1] hyp pd1 rep_de
  have then_en: "shouldSkip dedup_api ?d1 guide_en =
         Inr (\<lparr>skip = False, skip_reason = None\<rparr>,
              ?d1\<lparr>canonicalPaths := (canonicalPaths ?d1)
                     (?key \<mapsto> \<lparr>url = guide_en, rep_locale = Some ''en''\<rparr>)\<rparr>)"
    by blast
  let ?e2 = "?e1\<lparr>dedup_stats := (dedup_stats ?e1)\<lparr>localeSkipped := localeSkipped (dedup_stats ?e1) + 1\<rparr>\<rparr>"
  let ?d2 = "?d1\<lparr>canonicalPaths := (canonicalPaths ?d1)
                     (?key \<mapsto> \<lparr>url = guide_en, rep_locale = Some ''en''\<rparr>)\<rparr>"
  have c1: "map_option url (canonicalPaths ?e2 ''example.com/docs/guide'') = Some guide_en" by simp
  have c2: "map_option url (canonicalPaths ?d1 ''example.com/docs/guide'') = Some guide_de" by simp
  have c3: "map_option url (canonicalPaths ?d2 ''example.com/docs/guide'') = Some guide_en" by simp
  from first_en then_de c1 have "\<exists>t1 t2.
      shouldSkip dedup_api ?t0 guide_en = Inr (\<lparr>skip = False, skip_reason = None\<rparr>, t1) \<and>
      shouldSkip dedup_api t1 guide_de = Inr (\<lparr>skip = True, skip_reason = Some ''locale:de''\<rparr>, t2) \<and>
      map_option url (canonicalPaths t2 ''example.com/docs/guide'') = Some guide_en"
    by blast
  moreover from first_de then_en c2 c3 have "\<exists>t1 t2.
      shouldSkip dedup_api ?t0 guide_de = Inr (\<lparr>skip = False, skip_reason = None\<rparr>, t1) \<and>
      map_option url (canonicalPaths t1 ''example.com/docs/guide'') = Some guide_de \<and>
      shouldSkip dedup_api t1 guide_en = Inr (\<lparr>skip = False, skip_reason = None\<rparr>, t2) \<and>
      map_option url (canonicalPaths t2 ''example.com/docs/guide'') = Some guide_en"
    by blast
  ultimately show ?thesis by blast
qed

text \<open>
  Claim C10. A URL in which no locale is detected is never skipped. For every URL, that
  is every string that \<open>new URL\<close> parses (\<open>shouldCrawl\<close>, the only caller, hands on
  no other: it rejects a string that does not parse before it comes to the dedup
  tracker), in which \<open>extractLocale\<close> detects no locale, \<open>shouldSkip\<close> returns
  \<open>skip = false\<close> and stores the URL as the representative of its key, whatever was
  stored there; and whenever \<open>shouldSkip\<close> answers skip, a locale was detected in the URL
  and the reason is \<open>locale:\<close> followed by it.
\<close>

theorem no_locale_never_skipped:
  "(newURL api u = Some p \<and> \<not> hasLocale (extractLocale api u) \<longrightarrow>
    shouldSkip api t u =
      Inr (\<lparr>skip = False, skip_reason = None\<rparr>,
           t\<lparr>canonicalPaths := (canonicalPaths t)
                  (hostname p @ canonicalPath (extractLocale api u) \<mapsto> \<lparr>url = u, rep_locale = None\<rparr>),
             dedup_stats := (dedup_stats t)\<lparr>total := total (dedup_stats t) + 1\<rparr>\<rparr>)) \<and>
   (shouldSkip api t u = Inr (res, t') \<and> skip res \<longrightarrow>
    hasLocale (extractLocale api u) \<and>
    skip_reason res = Some (locale_reason (extractLocale api u)))"
  using shouldSkip_plain [of api u p t] shouldSkip_skip_only_locale [of api t u res t']
  by blast

theorem no_locale_never_skipped_witness:
  "\<exists>t1 t2.
     shouldSkip dedup_api (new_DedupTracker ''en'') guide_en =
       Inr (\<lparr>skip = False, skip_reason = None\<rparr>, t1) \<and>
     map_option url (canonicalPaths t1 ''example.com/docs/guide'') = Some guide_en \<and>
     \<not> hasLocale (extractLocale dedup_api guide_plain) \<and>
     shouldSkip dedup_api t1 guide_plain = Inr (\<lparr>skip = False, skip_reason = None\<rparr>, t2) \<and>
     map_option url (canonicalPaths t2 ''example.com/docs/guide'') = Some guide_plain"
proof -
  let ?p = "snd (https ''example.com'' ''/docs/guide'')"
  let ?pe = "snd (https ''example.com'' ''/en/docs/guide'')"
  let ?t0 = "new_DedupTracker ''en''"
  have pu: "newURL dedup_api guide_plain = Some ?p" by (simp add: dedup_table)
  have li: "extractLocale dedup_api guide_plain =
              \<lparr>hasLocale = False, locale_code = None, language = None, country = None,
               canonicalPath = ''/docs/guide''\<rparr>"
    by (simp add: dedup_table locale_eval)
  then have nl: "\<not> hasLocale (extractLocale dedup_api guide_plain)" by simp
  have first: "shouldSkip dedup_api ?t0 guide_en =
       Inr (\<lparr>skip = False, skip_reason = None\<rparr>,
            ?t0\<lparr>canonicalPaths := (canonicalPaths ?t0)
                    (''example.com/docs/guide'' \<mapsto> \<lparr>url = guide_en, rep_locale = Some ''en''\<rparr>),
                 dedup_stats := (dedup_stats ?t0)\<lparr>total := total (dedup_stats ?t0) + 1\<rparr>\<rparr>)"
    (is "_ = Inr (_, ?t1)")
    by (simp add: shouldSkip_def new_DedupTracker_def dedup_table locale_eval)
  from no_locale_never_skipped [where api = dedup_api and u = guide_plain and p = ?p and t = ?t1]
       pu nl
  have "shouldSkip dedup_api ?t1 guide_plain =
      Inr (\<lparr>skip = False, skip_reason = None\<rparr>,
           ?t1\<lparr>canonicalPaths := (canonicalPaths ?t1)
                  (hostname ?p @ canonicalPath (extractLocale dedup_api guide_plain) \<mapsto>
                     \<lparr>url = guide_plain, rep_locale = None\<rparr>),
             dedup_stats := (dedup_stats ?t1)\<lparr>total := total (dedup_stats ?t1) + 1\<rparr>\<rparr>)"
    by blast
  then have second: "shouldSkip dedup_api ?t1 guide_plain =
      Inr (\<lparr>skip = False, skip_reason = None\<rparr>,
           ?t1\<lparr>canonicalPaths := (canonicalPaths ?t1)
                  (''example.com/docs/guide'' \<mapsto> \<lparr>url = guide_plain, rep_locale = None\<rparr>),
             dedup_stats := (dedup_stats ?t1)\<lparr>total := total (dedup_stats ?t1) + 1\<rparr>\<rparr>)"
    (is "_ = Inr (_, ?t2)")
    by (simp add: li https_def)
  have c1: "map_option url (canonicalPaths ?t1 ''example.com/docs/guide'') = Some guide_en" by simp
  have c2: "map_option url (canonicalPaths ?t2 ''example.com/docs/guide'') = Some guide_plain" by simp
  from first c1 nl second c2 show ?thesis by blast
qed

subsection \<open>Crawl scheduler\<close>

lemma js_lt_Num [simp]: "js_lt (Num x) (Num y) \<longleftrightarrow> x < y"
  by (simp add: js_lt_def)

lemma js_le_Num [simp]: "js_le (Num x) (Num y) \<longleftrightarrow> x \<le> y"
  by (auto simp: js_le_def)

lemma js_le_NegInfinity [simp]: "js_le NegInfinity (Num y)"
  by (simp add: js_le_def js_lt_def)

text \<open>With \<open>NaN\<close> or \<open>Infinity\<close> as the limit, the guard \<open>count >= limit\<close> is never true.\<close>

lemma guard_never_true: "\<not> js_le NaN (num n) \<and> \<not> js_le Infinity (num n)"
  by (simp add: js_le_def js_lt_def num_def)

lemma include_fails_frame:
  assumes "include_fails c u = (b, c')"
  shows "depth (options c') = depth (options c)" "maxPages (options c') = maxPages (options c)"
    "excludePattern (options c') = excludePattern (options c)"
    "visited c' = visited c" "queue c' = queue c" "results c' = results c"
    "baseHosts c' = baseHosts c" "robots c' = robots c" "waterfall c' = waterfall c"
    "sitemap c' = sitemap c" "dedup c' = dedup c"
  using assms by (auto simp: include_fails_def split: option.splits prod.splits)

lemma exclude_hits_frame:
  assumes "exclude_hits c u = (b, c')"
  shows "depth (options c') = depth (options c)" "maxPages (options c') = maxPages (options c)"
    "visited c' = visited c" "queue c' = queue c" "results c' = results c"
    "baseHosts c' = baseHosts c" "robots c' = robots c" "waterfall c' = waterfall c"
    "sitemap c' = sitemap c" "dedup c' = dedup c"
  using assms by (auto simp: exclude_hits_def split: option.splits prod.splits)

lemma shouldCrawl_frame:
  assumes "shouldCrawl api c u d = (b, c')"
  shows "depth (options c') = depth (options c)" "maxPages (options c') = maxPages (options c)"
    "visited c' = visited c" "queue c' = queue c"
    "results c' = results c" "baseHosts c' = baseHosts c" "robots c' = robots c"
    "waterfall c' = waterfall c" "sitemap c' = sitemap c"
proof -
  obtain i c1 where i: "include_fails c u = (i, c1)" by (cases "include_fails c u")
  obtain e c2 where e: "exclude_hits c1 u = (e, c2)" by (cases "exclude_hits c1 u")
  note f1 = include_fails_frame [OF i] and f2 = exclude_hits_frame [OF e]
  from assms i e have "c' = c \<or> c' = c1 \<or> c' = c2 \<or> (\<exists>t. c' = c2\<lparr>dedup := t\<rparr>)"
    by (auto simp: shouldCrawl_def Let_def split: if_splits sum.splits prod.splits bool.splits)
  with f1 f2 show "depth (options c') = depth (options c)"
    "maxPages (options c') = maxPages (options c)"
    "visited c' = visited c" "queue c' = queue c"
    "results c' = results c" "baseHosts c' = baseHosts c" "robots c' = robots c"
    "waterfall c' = waterfall c" "sitemap c' = sitemap c"
    by auto
qed

lemma shouldCrawl_True:
  assumes "shouldCrawl api c u d = (True, c')"
  shows "\<not> js_lt (depth (options c)) (num d)" "normalizeUrl api u \<notin> set (visited c)"
    "\<not> js_le (maxPages (options c)) (num (length (visited c)))"
  using assms
  by (auto simp: shouldCrawl_def Let_def split: if_splits sum.splits prod.splits bool.splits)

lemma shouldCrawl_visited:
  "normalizeUrl api u \<in> set (visited c) \<Longrightarrow> shouldCrawl api c u d = (False, c)"
  by (simp add: shouldCrawl_def Let_def)

lemma addToQueue_cases:
  "addToQueue api c u d = c \<or>
   (normalizeUrl api u \<notin> set (visited c) \<and>
    \<not> js_le (maxPages (options c)) (num (length (visited c))) \<and>
    addToQueue api c u d =
      c\<lparr>visited := visited c @ [normalizeUrl api u], queue := queue c @ [(u, d)]\<rparr>)"
  by (simp add: addToQueue_def Let_def)

lemma addToQueue_accepted:
  "normalizeUrl api u \<notin> set (visited c) \<Longrightarrow>
   \<not> js_le (maxPages (options c)) (num (length (visited c))) \<Longrightarrow>
   addToQueue api c u d =
     c\<lparr>visited := visited c @ [normalizeUrl api u], queue := queue c @ [(u, d)]\<rparr>"
  by (simp add: addToQueue_def Let_def)

text \<open>What one admission changes.\<close>

lemma admit_cases:
  "depth (options (admit api d c u)) = depth (options c) \<and>
   maxPages (options (admit api d c u)) = maxPages (options c) \<and>
   results (admit api d c u) = results c \<and>
   ((visited (admit api d c u) = visited c \<and> queue (admit api d c u) = queue c) \<or>
    (\<not> js_lt (depth (options c)) (num d) \<and>
     \<not> js_le (maxPages (options c)) (num (length (visited c))) \<and>
     visited (admit api d c u) = visited c @ [normalizeUrl api u] \<and>
     queue (admit api d c u) = queue c @ [(u, d)]))"
proof -
  obtain b c' where sc: "shouldCrawl api c u d = (b, c')"
    by (cases "shouldCrawl api c u d")
  note fr = shouldCrawl_frame [OF sc]
  show ?thesis
  proof (cases b)
    case False
    with sc have "admit api d c u = c'" by (simp add: admit_def)
    with fr show ?thesis by simp
  next
    case True
    with sc have a: "admit api d c u = addToQueue api c' u d" by (simp add: admit_def)
    from True sc shouldCrawl_True [of api c u d c']
    have t: "\<not> js_lt (depth (options c)) (num d)" "normalizeUrl api u \<notin> set (visited c)"
      "\<not> js_le (maxPages (options c)) (num (length (visited c)))" by simp_all
    with fr have "addToQueue api c' u d =
       c'\<lparr>visited := visited c' @ [normalizeUrl api u], queue := queue c' @ [(u, d)]\<rparr>"
      by (intro addToQueue_accepted) simp_all
    with a fr t show ?thesis by simp
  qed
qed

lemma admit_limits [simp]:
  "depth (options (admit api d c u)) = depth (options c)"
  "maxPages (options (admit api d c u)) = maxPages (options c)"
  using admit_cases [of api d c u] by simp_all

lemma admit_budget: "budget_ok k c \<Longrightarrow> budget_ok k (admit api d c u)"
  using admit_cases [of api d c u] unfolding budget_ok_def by auto

lemma admit_depth: "depth_ok c \<Longrightarrow> depth_ok (admit api d c u)"
  using admit_cases [of api d c u] unfolding depth_ok_def by auto

lemma admit_visited: "set (visited c) \<subseteq> set (visited (admit api d c u))"
  using admit_cases [of api d c u] by auto

lemma foldl_admit_limits [simp]:
  "depth (options (foldl (admit api d) c us)) = depth (options c)"
  "maxPages (options (foldl (admit api d) c us)) = maxPages (options c)"
  by (induction us arbitrary: c) simp_all

lemma foldl_admit_budget: "budget_ok k c \<Longrightarrow> budget_ok k (foldl (admit api d) c us)"
  by (induction us arbitrary: c) (simp_all add: admit_budget)

lemma foldl_admit_depth: "depth_ok c \<Longrightarrow> depth_ok (foldl (admit api d) c us)"
  by (induction us arbitrary: c) (simp_all add: admit_depth)

lemma foldl_admit_visited: "set (visited c) \<subseteq> set (visited (foldl (admit api d) c us))"
proof (induction us arbitrary: c)
  case Nil
  show ?case by simp
next
  case (Cons u us)
  from admit_visited [of c api d u] Cons [of "admit api d c u"] show ?case by auto
qed

lemma addToQueue_options [simp]: "options (addToQueue api c u d) = options c"
  using addToQueue_cases [of api c u d] by auto

lemma addToQueue_budget: "budget_ok k c \<Longrightarrow> budget_ok k (addToQueue api c u d)"
  using addToQueue_cases [of api c u d] unfolding budget_ok_def by auto

lemma addToQueue_depth:
  assumes "depth_ok c" and "d = 0 \<or> \<not> js_lt (depth (options c)) (num d)"
  shows "depth_ok (addToQueue api c u d)"
proof -
  from addToQueue_cases [of api c u d]
  consider "addToQueue api c u d = c"
    | "addToQueue api c u d =
         c\<lparr>visited := visited c @ [normalizeUrl api u], queue := queue c @ [(u, d)]\<rparr>"
    by blast
  then show ?thesis
  proof cases
    case 1
    with assms(1) show ?thesis by simp
  next
    case 2
    from assms show ?thesis unfolding 2 depth_ok_def by simp
  qed
qed

lemma addToQueue_visited: "set (visited c) \<subseteq> set (visited (addToQueue api c u d))"
  using addToQueue_cases [of api c u d] by auto

lemma seed_options [simp]: "options (foldl (\<lambda>c u. addToQueue api c u 0) c us) = options c"
  by (induction us arbitrary: c) simp_all

lemma seed_budget: "budget_ok k c \<Longrightarrow> budget_ok k (foldl (\<lambda>c u. addToQueue api c u 0) c us)"
  by (induction us arbitrary: c) (simp_all add: addToQueue_budget)

lemma seed_depth: "depth_ok c \<Longrightarrow> depth_ok (foldl (\<lambda>c u. addToQueue api c u 0) c us)"
  by (induction us arbitrary: c) (simp_all add: addToQueue_depth)

lemma seed_visited: "set (visited c) \<subseteq> set (visited (foldl (\<lambda>c u. addToQueue api c u 0) c us))"
proof (induction us arbitrary: c)
  case Nil
  show ?case by simp
next
  case (Cons u us)
  from addToQueue_visited [of c api u 0] Cons [of "addToQueue api c u 0"] show ?case by auto
qed

text \<open>What one task changes: the waterfall, at most one new result, and admissions.\<close>

lemma processUrl_cases:
  "(\<exists>w. processUrl api env c u d = c\<lparr>waterfall := w\<rparr>) \<or>
   (\<exists>w x ls. result_depth x = d \<and>
      processUrl api env c u d =
        (if js_lt (num d) (depth (options c))
         then foldl (admit api (d + 1)) (c\<lparr>waterfall := w, results := results c @ [x]\<rparr>) ls
         else c\<lparr>waterfall := w, results := results c @ [x]\<rparr>))"
proof -
  let ?auth = "if useAuth (options c) \<noteq> Some False then authState env (extractDomain api u) else None"
  let ?opts = "\<lparr>eo_timeout = Some (timeout (options c)), eo_forceEngine = forceEngine (options c),
                authStatePath = ?auth\<rparr>"
  obtain fetched w where wf: "waterfall_fetch api (engines_of env) (waterfall c) u ?opts = (fetched, w)"
    by (cases "waterfall_fetch api (engines_of env) (waterfall c) u ?opts")
  show ?thesis
  proof (cases fetched)
    case (Inl e)
    with wf have "processUrl api env c u d = c\<lparr>waterfall := w\<rparr>"
      by (simp add: processUrl_def Let_def)
    then show ?thesis by blast
  next
    case (Inr result)
    show ?thesis
    proof (cases "res_blocked result \<or> statusCode result \<ge> 400")
      case True
      with wf Inr have "processUrl api env c u d = c\<lparr>waterfall := w\<rparr>"
        by (auto simp: processUrl_def Let_def)
      then show ?thesis by blast
    next
      case ok: False
      show ?thesis
      proof (cases "extractor env (html result) (finalUrl result)")
        case (Inl e)
        with wf Inr ok have "processUrl api env c u d = c\<lparr>waterfall := w\<rparr>"
          by (auto simp: processUrl_def Let_def)
        then show ?thesis by blast
      next
        case ex: (Inr ex)
        show ?thesis
        proof (cases "wordCount ex < 20")
          case True
          with wf Inr ok ex have "processUrl api env c u d = c\<lparr>waterfall := w\<rparr>"
            by (auto simp: processUrl_def Let_def)
          then show ?thesis by blast
        next
          case False
          let ?x = "\<lparr>result_url = u, result_finalUrl = finalUrl result, extracted = ex,
                     result_depth = d, result_engine = engine result\<rparr>"
          from wf Inr ok ex False have "processUrl api env c u d =
            (if js_lt (num d) (depth (options c))
             then foldl (admit api (d + 1)) (c\<lparr>waterfall := w, results := results c @ [?x]\<rparr>) (links ex)
             else c\<lparr>waterfall := w, results := results c @ [?x]\<rparr>)"
            by (auto simp: processUrl_def Let_def)
          moreover have "result_depth ?x = d" by simp
          ultimately show ?thesis by blast
        qed
      qed
    qed
  qed
qed

lemma processUrl_limits [simp]:
  "depth (options (processUrl api env c u d)) = depth (options c)"
  "maxPages (options (processUrl api env c u d)) = maxPages (options c)"
  using processUrl_cases [of api env c u d] by (auto split: if_splits)

lemma processUrl_budget:
  assumes "k + length (results c) + length (queue c) + 1 \<le> length (visited c)"
    and "visited c = [] \<or> \<not> js_le (maxPages (options c)) (num (length (visited c) - 1))"
  shows "budget_ok k (processUrl api env c u d)"
proof -
  from processUrl_cases [of api env c u d]
  consider w where "processUrl api env c u d = c\<lparr>waterfall := w\<rparr>"
    | w x ls where "processUrl api env c u d =
        (if js_lt (num d) (depth (options c))
         then foldl (admit api (d + 1)) (c\<lparr>waterfall := w, results := results c @ [x]\<rparr>) ls
         else c\<lparr>waterfall := w, results := results c @ [x]\<rparr>)"
    by blast
  then show ?thesis
  proof cases
    case 1
    with assms show ?thesis by (simp add: budget_ok_def)
  next
    case 2
    have "budget_ok k (c\<lparr>waterfall := w, results := results c @ [x]\<rparr>)"
      using assms by (simp add: budget_ok_def)
    with 2 foldl_admit_budget show ?thesis by simp
  qed
qed

lemma processUrl_depth:
  assumes "depth_ok c" and "d = 0 \<or> \<not> js_lt (depth (options c)) (num d)"
  shows "depth_ok (processUrl api env c u d)"
proof -
  from processUrl_cases [of api env c u d]
  consider w where "processUrl api env c u d = c\<lparr>waterfall := w\<rparr>"
    | w x ls where "result_depth x = d" "processUrl api env c u d =
        (if js_lt (num d) (depth (options c))
         then foldl (admit api (d + 1)) (c\<lparr>waterfall := w, results := results c @ [x]\<rparr>) ls
         else c\<lparr>waterfall := w, results := results c @ [x]\<rparr>)"
    by blast
  then show ?thesis
  proof cases
    case 1
    with assms show ?thesis by (simp add: depth_ok_def)
  next
    case 2
    have "depth_ok (c\<lparr>waterfall := w, results := results c @ [x]\<rparr>)"
      using assms 2(1) by (auto simp: depth_ok_def)
    with 2(2) foldl_admit_depth show ?thesis by simp
  qed
qed

lemma processUrl_visited: "set (visited c) \<subseteq> set (visited (processUrl api env c u d))"
proof -
  from processUrl_cases [of api env c u d]
  consider w where "processUrl api env c u d = c\<lparr>waterfall := w\<rparr>"
    | w x ls where "processUrl api env c u d =
        (if js_lt (num d) (depth (options c))
         then foldl (admit api (d + 1)) (c\<lparr>waterfall := w, results := results c @ [x]\<rparr>) ls
         else c\<lparr>waterfall := w, results := results c @ [x]\<rparr>)"
    by blast
  then show ?thesis
  proof cases
    case 1
    then show ?thesis by simp
  next
    case 2
    with foldl_admit_visited [of "c\<lparr>waterfall := w, results := results c @ [x]\<rparr>" api "d + 1" ls]
    show ?thesis by (auto split: if_splits)
  qed
qed

lemma parseSitemaps_turn_limits [simp]:
  "depth (options (parseSitemaps_turn api net c u)) = depth (options c)"
  "maxPages (options (parseSitemaps_turn api net c u)) = maxPages (options c)"
  by (simp_all add: parseSitemaps_turn_def Let_def split: prod.splits)

lemma parseSitemaps_turn_budget:
  "budget_ok k c \<Longrightarrow> budget_ok k (parseSitemaps_turn api net c u)"
proof -
  assume b: "budget_ok k c"
  have "budget_ok k (c\<lparr>sitemap := sp\<rparr>)" for sp using b by (simp add: budget_ok_def)
  then show ?thesis
    by (simp add: parseSitemaps_turn_def Let_def foldl_admit_budget split: prod.splits)
qed

lemma parseSitemaps_turn_depth:
  "depth_ok c \<Longrightarrow> depth_ok (parseSitemaps_turn api net c u)"
proof -
  assume b: "depth_ok c"
  have "depth_ok (c\<lparr>sitemap := sp\<rparr>)" for sp using b by (simp add: depth_ok_def)
  then show ?thesis
    by (simp add: parseSitemaps_turn_def Let_def foldl_admit_depth split: prod.splits)
qed

lemma parseSitemaps_turn_visited:
  "set (visited c) \<subseteq> set (visited (parseSitemaps_turn api net c u))"
proof -
  have "set (visited c) \<subseteq> set (visited (foldl (admit api 1) (c\<lparr>sitemap := sp\<rparr>) us))" for sp us
    using foldl_admit_visited [of "c\<lparr>sitemap := sp\<rparr>" api 1 us] by simp
  then show ?thesis
    by (simp add: parseSitemaps_turn_def Let_def split: prod.splits)
qed

text \<open>The generator's own steps.\<close>

lemma final_flush_keeps:
  "options (crawler (final_flush r)) = options (crawler r) \<and>
   visited (crawler (final_flush r)) = visited (crawler r) \<and>
   (run_budget r \<longrightarrow> run_budget (final_flush r)) \<and>
   (run_depth r \<longrightarrow> run_depth (final_flush r))"
  by (cases "results (crawler r)")
     (auto simp: final_flush_def run_budget_def run_depth_def budget_ok_def depth_ok_def)

lemma drain_body_keeps:
  "options (crawler (drain_body idle r)) = options (crawler r) \<and>
   visited (crawler (drain_body idle r)) = visited (crawler r) \<and>
   (run_budget r \<longrightarrow> run_budget (drain_body idle r)) \<and>
   (run_depth r \<longrightarrow> run_depth (drain_body idle r))"
proof (cases "results (crawler r)")
  case Nil
  have w: "run_budget (r\<lparr>pc := Waiting\<rparr>) = run_budget r" "run_depth (r\<lparr>pc := Waiting\<rparr>) = run_depth r"
    by (simp_all add: run_budget_def run_depth_def)
  from Nil final_flush_keeps [of r] w show ?thesis
    by (simp add: drain_body_def)
next
  case (Cons x xs)
  then show ?thesis
    by (auto simp: drain_body_def run_budget_def run_depth_def budget_ok_def depth_ok_def)
qed

lemma drain_loop_keeps:
  "options (crawler (drain_loop idle r)) = options (crawler r) \<and>
   visited (crawler (drain_loop idle r)) = visited (crawler r) \<and>
   (run_budget r \<longrightarrow> run_budget (drain_loop idle r)) \<and>
   (run_depth r \<longrightarrow> run_depth (drain_loop idle r))"
  using drain_body_keeps [of idle r] final_flush_keeps [of r]
  by (simp add: drain_loop_def)

lemma after_robots_keeps:
  "options (crawler (after_robots idle r)) = options (crawler r) \<and>
   visited (crawler (after_robots idle r)) = visited (crawler r) \<and>
   (run_budget r \<longrightarrow> run_budget (after_robots idle r)) \<and>
   (run_depth r \<longrightarrow> run_depth (after_robots idle r))"
proof (cases "useSitemap (options (crawler r))")
  case True
  then show ?thesis by (simp add: after_robots_def run_budget_def run_depth_def)
next
  case False
  with drain_loop_keeps [of idle r] show ?thesis by (simp add: after_robots_def)
qed

lemma begin_crawl_keeps:
  "options (crawler (begin_crawl api idle r)) = options (crawler r) \<and>
   set (visited (crawler r)) \<subseteq> set (visited (crawler (begin_crawl api idle r))) \<and>
   (run_budget r \<longrightarrow> run_budget (begin_crawl api idle r)) \<and>
   (run_depth r \<longrightarrow> run_depth (begin_crawl api idle r))"
proof -
  let ?ns = "map (normalizeUrl api) (startUrls r)"
  let ?c1 = "(crawler r)\<lparr>baseHosts := remdups (map (getBaseDomain api) ?ns)\<rparr>"
  let ?c2 = "foldl (\<lambda>c u. addToQueue api c u 0) ?c1 ?ns"
  let ?r1 = "r\<lparr>crawler := ?c2, normalizedUrls := ?ns\<rparr>"
  have o: "options ?c2 = options (crawler r)" by simp
  have v: "set (visited (crawler r)) \<subseteq> set (visited ?c2)"
    using seed_visited [of ?c1 api ?ns] by simp
  have b: "run_budget ?r1" if "run_budget r"
  proof -
    from that have "budget_ok (length (yielded r)) ?c1" by (simp add: run_budget_def budget_ok_def)
    from seed_budget [OF this] show ?thesis by (simp add: run_budget_def)
  qed
  have d: "run_depth ?r1" if "run_depth r"
  proof -
    from that have "depth_ok ?c1" by (simp add: run_depth_def depth_ok_def)
    from seed_depth [OF this] that show ?thesis by (simp add: run_depth_def)
  qed
  show ?thesis
  proof (cases "respectRobots (options ?c2)")
    case True
    then have e: "begin_crawl api idle r =
        ?r1\<lparr>robotsPending := robots_requests api (robots ?c2) ?ns, pc := AwaitRobots\<rparr>"
      by (simp add: begin_crawl_def Let_def)
    from o v b d show ?thesis unfolding e by (simp add: run_budget_def run_depth_def)
  next
    case False
    then have e: "begin_crawl api idle r = after_robots idle ?r1"
      by (simp add: begin_crawl_def Let_def)
    from after_robots_keeps [of idle ?r1] o v b d show ?thesis unfolding e by simp
  qed
qed

lemma resume_keeps:
  "options (crawler (resume api idle r)) = options (crawler r) \<and>
   set (visited (crawler r)) \<subseteq> set (visited (crawler (resume api idle r))) \<and>
   (run_budget r \<longrightarrow> run_budget (resume api idle r)) \<and>
   (run_depth r \<longrightarrow> run_depth (resume api idle r))"
proof (cases "pc r")
  case Start
  with begin_crawl_keeps [of api idle r] show ?thesis by (simp add: resume_def)
next
  case AwaitRobots
  with after_robots_keeps [of idle r] show ?thesis by (simp add: resume_def)
next
  case AwaitSitemaps
  with drain_loop_keeps [of idle r] show ?thesis by (simp add: resume_def)
next
  case Waiting
  with drain_loop_keeps [of idle r] show ?thesis by (simp add: resume_def)
next
  case YieldedInLoop
  let ?r = "r\<lparr>yieldedCount := yieldedCount r + 1\<rparr>"
  have "run_budget ?r = run_budget r" "run_depth ?r = run_depth r"
    by (simp_all add: run_budget_def run_depth_def)
  with YieldedInLoop drain_body_keeps [of False ?r] show ?thesis by (simp add: resume_def)
next
  case YieldedFinal
  with final_flush_keeps [of r] show ?thesis by (simp add: resume_def)
next
  case Done
  then show ?thesis by (simp add: resume_def)
qed

lemma length_remove_nth: "i < length xs \<Longrightarrow> Suc (length (remove_nth i xs)) = length xs"
  by (simp add: remove_nth_def)

lemma set_remove_nth: "set (remove_nth i xs) \<subseteq> set xs"
  unfolding remove_nth_def using set_take_subset [of i xs] set_drop_subset [of "Suc i" xs] by auto

lemma step_keeps:
  "depth (options (crawler (step api r ev))) = depth (options (crawler r)) \<and>
   maxPages (options (crawler (step api r ev))) = maxPages (options (crawler r)) \<and>
   set (visited (crawler r)) \<subseteq> set (visited (crawler (step api r ev))) \<and>
   (run_budget r \<longrightarrow> run_budget (step api r ev)) \<and>
   (run_depth r \<longrightarrow> run_depth (step api r ev))"
proof (cases ev)
  case (Resume idle)
  with resume_keeps [of api idle r] show ?thesis by (simp add: step_def)
next
  case (RobotsAnswer i answer)
  then show ?thesis
    by (auto simp: step_def Let_def run_budget_def run_depth_def budget_ok_def depth_ok_def
             split: prod.splits)
next
  case (SitemapAnswer net)
  show ?thesis
  proof (cases "sitemapTodo r")
    case Nil
    with SitemapAnswer show ?thesis by (simp add: step_def)
  next
    case (Cons u rest)
    with SitemapAnswer have e: "step api r ev =
        r\<lparr>crawler := parseSitemaps_turn api net (crawler r) u, sitemapTodo := rest\<rparr>"
      by (simp add: step_def)
    show ?thesis unfolding e
      using parseSitemaps_turn_budget [of "length (yielded r)" "crawler r" api net u]
        parseSitemaps_turn_depth [of "crawler r" api net u]
        parseSitemaps_turn_visited [of "crawler r" api net u]
      by (simp add: run_budget_def run_depth_def)
  qed
next
  case (TaskDone i env)
  show ?thesis
  proof (cases "i < length (queue (crawler r))")
    case False
    with TaskDone show ?thesis by (simp add: step_def)
  next
    case True
    obtain u d where ud: "queue (crawler r) ! i = (u, d)" by (cases "queue (crawler r) ! i")
    let ?c = "(crawler r)\<lparr>queue := remove_nth i (queue (crawler r))\<rparr>"
    from TaskDone True ud have e: "step api r ev = r\<lparr>crawler := processUrl api env ?c u d\<rparr>"
      by (simp add: step_def Let_def)
    have mem: "(u, d) \<in> set (queue (crawler r))" using True ud nth_mem by metis
    have b: "run_budget (step api r ev)" if "run_budget r"
    proof -
      from that length_remove_nth [OF True]
      have "length (yielded r) + length (results ?c) + length (queue ?c) + 1 \<le> length (visited ?c)"
        and "visited ?c = [] \<or> \<not> js_le (maxPages (options ?c)) (num (length (visited ?c) - 1))"
        by (simp_all add: run_budget_def budget_ok_def)
      from processUrl_budget [OF this] show ?thesis unfolding e by (simp add: run_budget_def)
    qed
    have dp: "run_depth (step api r ev)" if "run_depth r"
    proof -
      from that set_remove_nth [of i "queue (crawler r)"] have "depth_ok ?c"
        by (auto simp: run_depth_def depth_ok_def)
      moreover from that mem have "d = 0 \<or> \<not> js_lt (depth (options ?c)) (num d)"
        by (auto simp: run_depth_def depth_ok_def)
      ultimately have "depth_ok (processUrl api env ?c u d)" by (rule processUrl_depth)
      with that show ?thesis unfolding e by (simp add: run_depth_def)
    qed
    have v: "set (visited (crawler r)) \<subseteq> set (visited (crawler (step api r ev)))"
      unfolding e using processUrl_visited [of ?c api env u d] by simp
    from b dp v show ?thesis unfolding e by simp
  qed
qed

lemma exec_keeps:
  "depth (options (crawler (exec api evs r))) = depth (options (crawler r)) \<and>
   maxPages (options (crawler (exec api evs r))) = maxPages (options (crawler r)) \<and>
   set (visited (crawler r)) \<subseteq> set (visited (crawler (exec api evs r))) \<and>
   (run_budget r \<longrightarrow> run_budget (exec api evs r)) \<and>
   (run_depth r \<longrightarrow> run_depth (exec api evs r))"
proof (induction evs rule: rev_induct)
  case Nil
  show ?case by (simp add: exec_def)
next
  case (snoc ev evs)
  have "exec api (evs @ [ev]) r = step api (exec api evs r) ev" by (simp add: exec_def)
  with snoc step_keeps [of api "exec api evs r" ev] show ?case by auto
qed

lemma new_Run_ok: "run_budget (new_Run opts urls) \<and> run_depth (new_Run opts urls) \<and>
  options (crawler (new_Run opts urls)) = opts"
  by (simp add: new_Run_def new_Crawler_def run_budget_def run_depth_def budget_ok_def depth_ok_def)

lemma js_le_num_mono: "js_le m (num a) \<Longrightarrow> a \<le> b \<Longrightarrow> js_le m (num b)"
  by (cases m) (auto simp: js_le_def js_lt_def num_def)

lemma yielded_budget:
  "yielded (exec api evs (new_Run opts urls)) = [] \<or>
   \<not> js_le (maxPages opts) (num (length (yielded (exec api evs (new_Run opts urls))) - 1))"
proof -
  let ?r = "exec api evs (new_Run opts urls)"
  from exec_keeps [of api evs "new_Run opts urls"] new_Run_ok [of opts urls]
  have b: "run_budget ?r" and m: "maxPages (options (crawler ?r)) = maxPages opts" by simp_all
  from b have le: "length (yielded ?r) \<le> length (visited (crawler ?r))"
    and g: "visited (crawler ?r) = [] \<or>
            \<not> js_le (maxPages opts) (num (length (visited (crawler ?r)) - 1))"
    unfolding run_budget_def budget_ok_def m by simp_all
  show ?thesis
  proof (cases "yielded ?r = []")
    case True
    then show ?thesis by simp
  next
    case False
    with le have "visited (crawler ?r) \<noteq> []" by auto
    with g have n: "\<not> js_le (maxPages opts) (num (length (visited (crawler ?r)) - 1))" by simp
    from le have "length (yielded ?r) - 1 \<le> length (visited (crawler ?r)) - 1" by simp
    with n js_le_num_mono show ?thesis by blast
  qed
qed

lemma guard_false:
  assumes "n \<noteq> 0" and "\<not> js_le (Num q) (num (n - 1))"
  shows "of_nat n < q + 1"
proof -
  from assms(1) have "(of_nat (n - 1) :: rat) = of_nat n - 1" by (simp add: of_nat_diff)
  with assms(2) show ?thesis by (simp add: num_def)
qed

lemma yielded_depth:
  "x \<in> set (yielded (exec api evs (new_Run opts urls))) \<Longrightarrow>
   result_depth x = 0 \<or> \<not> js_lt (depth opts) (num (result_depth x))"
proof -
  let ?r = "exec api evs (new_Run opts urls)"
  assume x: "x \<in> set (yielded ?r)"
  from exec_keeps [of api evs "new_Run opts urls"] new_Run_ok [of opts urls]
  have "run_depth ?r" and "depth (options (crawler ?r)) = depth opts" by simp_all
  with x show ?thesis by (simp add: run_depth_def)
qed

text \<open>
  Claim C1, amended. Whatever the start URLs, the options and the order and outcome of
  the events of a crawl, the generator yields a result, the final flush included, only
  while the guard \<open>count >= maxPages\<close> is false for the number of results yielded
  before. So the results yielded at any moment are at most \<open>maxPages\<close> when
  \<open>maxPages\<close> is a natural number, at most \<open>maxPages\<close> rounded up when it is a
  positive fraction, and none when it is negative.
\<close>

theorem page_budget:
  "(yielded (exec api evs (new_Run opts urls)) = [] \<or>
    \<not> js_le (maxPages opts) (num (length (yielded (exec api evs (new_Run opts urls))) - 1))) \<and>
   (maxPages opts = Num (of_nat m) \<longrightarrow>
    length (yielded (exec api evs (new_Run opts urls))) \<le> m) \<and>
   (maxPages opts = Num q \<longrightarrow>
    int (length (yielded (exec api evs (new_Run opts urls)))) \<le> max 0 \<lceil>q\<rceil>) \<and>
   (maxPages opts = NegInfinity \<longrightarrow> yielded (exec api evs (new_Run opts urls)) = [])"
proof -
  let ?n = "length (yielded (exec api evs (new_Run opts urls)))"
  note g = yielded_budget [of api evs opts urls]
  have a: "?n \<le> m" if "maxPages opts = Num (of_nat m)"
  proof (cases "?n = 0")
    case True
    then show ?thesis by simp
  next
    case False
    with g that have "\<not> js_le (Num (of_nat m)) (num (?n - 1))" by simp
    from guard_false [OF False this] have "(of_nat ?n :: rat) < of_nat (m + 1)" by simp
    then have "?n < m + 1" by (simp only: of_nat_less_iff)
    then show ?thesis by simp
  qed
  have b: "int ?n \<le> max 0 \<lceil>q\<rceil>" if "maxPages opts = Num q"
  proof (cases "?n = 0")
    case True
    then show ?thesis by simp
  next
    case False
    with g that have "\<not> js_le (Num q) (num (?n - 1))" by simp
    from guard_false [OF False this] have "(of_int (int ?n - 1) :: rat) < q" by simp
    then have "int ?n - 1 < \<lceil>q\<rceil>" by (simp only: less_ceiling_iff)
    then show ?thesis by simp
  qed
  have c: "yielded (exec api evs (new_Run opts urls)) = []" if "maxPages opts = NegInfinity"
    using g that by (simp add: num_def)
  from g a b c show ?thesis by blast
qed

text \<open>
  Claim C2, amended. Whatever the start URLs, the options and the order and outcome of
  the events of a crawl, every result the generator yields is at depth 0 or at a depth
  for which the check \<open>depth > options.depth\<close> is false: seeds enter at depth 0 with no
  check, sitemap URLs pass the depth check of \<open>shouldCrawl\<close> at depth 1, and the links
  of a page at depth \<open>d\<close> pass it at \<open>d + 1\<close>. So every yielded result has a depth of at
  most \<open>depth\<close> when \<open>depth\<close> is not negative, and depth 0 when it is negative.
\<close>

theorem depth_bound:
  "\<forall>x\<in>set (yielded (exec api evs (new_Run opts urls))).
     (result_depth x = 0 \<or> \<not> js_lt (depth opts) (num (result_depth x))) \<and>
     (depth opts = Num (of_nat n) \<longrightarrow> result_depth x \<le> n) \<and>
     (depth opts = Num q \<longrightarrow> of_nat (result_depth x) \<le> max q 0) \<and>
     (depth opts = NegInfinity \<longrightarrow> result_depth x = 0)"
proof
  fix x
  assume "x \<in> set (yielded (exec api evs (new_Run opts urls)))"
  from yielded_depth [OF this]
  have g: "result_depth x = 0 \<or> \<not> js_lt (depth opts) (num (result_depth x))" .
  have a: "result_depth x \<le> n" if "depth opts = Num (of_nat n)"
  proof (cases "result_depth x = 0")
    case True
    then show ?thesis by simp
  next
    case False
    with g that have "\<not> (of_nat n :: rat) < of_nat (result_depth x)" by (simp add: num_def)
    then show ?thesis by simp
  qed
  have b: "of_nat (result_depth x) \<le> max q 0" if "depth opts = Num q"
  proof (cases "result_depth x = 0")
    case True
    then show ?thesis by simp
  next
    case False
    with g that have "\<not> q < of_nat (result_depth x)" by (simp add: num_def)
    then show ?thesis by simp
  qed
  have c: "result_depth x = 0" if "depth opts = NegInfinity"
    using g that by (simp add: num_def js_lt_def)
  from g a b c show "(result_depth x = 0 \<or> \<not> js_lt (depth opts) (num (result_depth x))) \<and>
     (depth opts = Num (of_nat n) \<longrightarrow> result_depth x \<le> n) \<and>
     (depth opts = Num q \<longrightarrow> of_nat (result_depth x) \<le> max q 0) \<and>
     (depth opts = NegInfinity \<longrightarrow> result_depth x = 0)"
    by blast
qed

lemmas url_eval = normalizeUrl_def getBaseDomain_def shouldSkipUrl_def startsWith_def endsWith_def
  delete_params_def simple_query_def dedup_api_def table_api_def https_def SKIP_EXTENSIONS_def
  toLowerCase_def lower_char_def extractDomain_def

lemmas crawl_eval = step_def resume_def begin_crawl_def after_robots_def drain_loop_def
  drain_body_def final_flush_def addToQueue_def shouldCrawl_def include_fails_def exclude_hits_def
  admit_def processUrl_def num_def
  remove_nth_def crawl_opts_def DEFAULT_OPTIONS_def crawl_env_def docs_en_def guide_plain_def
  extractDomain_def shouldSkip_def skipped_def locale_reason_def new_DedupTracker_def robots_requests_def
  robots_begin_def new_RobotsParser_def isAllowed_def

lemma table_newURL:
  "newURL dedup_api ''https://example.com/'' =
     Some \<lparr>origin = ''https://example.com'', hostname = ''example.com'', pathname = ''/'',
           search = [], searchParams = []\<rparr>"
  "newURL dedup_api ''https://example.com/docs/guide'' =
     Some \<lparr>origin = ''https://example.com'', hostname = ''example.com'',
           pathname = ''/docs/guide'', search = [], searchParams = []\<rparr>"
  "newURL dedup_api ''https://example.com/en/docs'' =
     Some \<lparr>origin = ''https://example.com'', hostname = ''example.com'',
           pathname = ''/en/docs'', search = [], searchParams = []\<rparr>"
  by (simp_all add: dedup_api_def table_api_def https_def)

lemma table_normalizeUrl:
  "normalizeUrl dedup_api ''https://example.com/'' = ''https://example.com/''"
  "normalizeUrl dedup_api ''https://example.com/docs/guide'' = ''https://example.com/docs/guide''"
  "normalizeUrl dedup_api ''https://example.com/en/docs'' = ''https://example.com/en/docs''"
  by (simp_all add: url_eval Let_def)

lemma table_getBaseDomain:
  "getBaseDomain dedup_api ''https://example.com/'' = ''example.com''"
  "getBaseDomain dedup_api ''https://example.com/docs/guide'' = ''example.com''"
  "getBaseDomain dedup_api ''https://example.com/en/docs'' = ''example.com''"
  by (simp_all add: url_eval Let_def)

lemma table_shouldSkipUrl:
  "\<not> shouldSkipUrl dedup_api ''https://example.com/docs/guide''"
  "\<not> shouldSkipUrl dedup_api ''https://example.com/en/docs''"
  by (simp_all add: url_eval Let_def)

lemma table_extractLocale:
  "extractLocale dedup_api ''https://example.com/docs/guide'' =
     \<lparr>hasLocale = False, locale_code = None, language = None, country = None,
      canonicalPath = ''/docs/guide''\<rparr>"
  "extractLocale dedup_api ''https://example.com/en/docs'' =
     \<lparr>hasLocale = True, locale_code = Some ''en'', language = Some ''en'', country = None,
      canonicalPath = ''/docs''\<rparr>"
  by (simp_all add: dedup_table locale_eval)

lemmas table_eval = table_newURL table_normalizeUrl table_getBaseDomain table_shouldSkipUrl
  table_extractLocale

lemma crawl_fetch1: "waterfall_fetch dedup_api throttled_env new_EngineWaterfall u
              \<lparr>eo_timeout = Some 10000, eo_forceEngine = None, authStatePath = None\<rparr> =
            (Inr \<lparr>html = ''<main>hello</main>'', statusCode = 200, finalUrl = ''https://example.com/'',
                  engine = Playwright, res_blocked = False, res_blockReason = None\<rparr>, crawl_w1)"
  if "newURL dedup_api u = Some p" "hostname p = ''example.com''" for u p
  using that
  by (simp add: crawl_w1_def waterfall_fetch_def needsBrowser_def ENGINES_def fetchWithEngine_def
        call_engine_def ensureBrowserInstalled_def throttled_env_def with_timeout_def
        new_EngineWaterfall_def page_200_def page_429_def count_engine_def Let_def
        KNOWN_PROTECTED_DOMAINS_def endsWith_def detector_eval)

lemma crawl_fetch2: "waterfall_fetch dedup_api throttled_env crawl_w1 u
              \<lparr>eo_timeout = Some 10000, eo_forceEngine = None, authStatePath = None\<rparr> =
            (Inr \<lparr>html = ''<main>hello</main>'', statusCode = 200, finalUrl = ''https://example.com/'',
                  engine = Playwright, res_blocked = False, res_blockReason = None\<rparr>, crawl_w2)"
  if "newURL dedup_api u = Some p" "hostname p = ''example.com''" for u p
  using that
  by (simp add: crawl_w1_def crawl_w2_def waterfall_fetch_def needsBrowser_def ENGINES_def fetchWithEngine_def
        call_engine_def ensureBrowserInstalled_def throttled_env_def with_timeout_def
        page_200_def page_429_def count_engine_def Let_def
        KNOWN_PROTECTED_DOMAINS_def endsWith_def detector_eval)

text \<open>The small crawl, step by step, for every page budget above 1 and up to 2.\<close>

lemma crawl_step1:
  "step dedup_api (new_Run (crawl_opts q) [''https://example.com/'']) (Resume False) = crawl_s1 q"
  if "1 < q" "q \<le> 2"
  using that
  by (simp add: crawl_s1_def crawl_c1_def new_Run_def new_Crawler_def crawl_eval table_eval Let_def)

lemma crawl_step2:
  "step dedup_api (crawl_s1 q) (TaskDone 0 crawl_env) = (crawl_s1 q)\<lparr>crawler := crawl_c2 q\<rparr>"
  if "1 < q" "q \<le> 2"
  using that
  by (simp add: crawl_s1_def crawl_c1_def crawl_c2_def crawl_d1_def crawl_r0_def crawl_ex_def new_Crawler_def crawl_eval table_eval
        crawl_fetch1 [OF table_newURL(1)] Let_def)

lemma crawl_step3:
  "step dedup_api ((crawl_s1 q)\<lparr>crawler := crawl_c2 q\<rparr>) (Resume False) =
   (crawl_s1 q)\<lparr>crawler := (crawl_c2 q)\<lparr>results := []\<rparr>, yielded := [crawl_r0], pc := YieldedInLoop\<rparr>"
  by (simp add: crawl_s1_def crawl_c1_def crawl_c2_def new_Crawler_def crawl_eval Let_def)

lemma crawl_step4:
  "step dedup_api ((crawl_s1 q)\<lparr>crawler := (crawl_c2 q)\<lparr>results := []\<rparr>, yielded := [crawl_r0],
                               pc := YieldedInLoop\<rparr>)
            (TaskDone 0 crawl_env) =
   (crawl_s1 q)\<lparr>crawler := (crawl_c2 q)\<lparr>results := [crawl_r1], queue := [], waterfall := crawl_w2\<rparr>,
                yielded := [crawl_r0], pc := YieldedInLoop\<rparr>"
  by (simp add: crawl_s1_def crawl_c1_def crawl_c2_def crawl_r1_def crawl_ex_def new_Crawler_def crawl_eval table_eval
        crawl_fetch2 [OF table_newURL(2)] Let_def)

lemma crawl_step5:
  "step dedup_api ((crawl_s1 q)\<lparr>crawler := (crawl_c2 q)\<lparr>results := [crawl_r1], queue := [],
                                                       waterfall := crawl_w2\<rparr>,
               yielded := [crawl_r0], pc := YieldedInLoop\<rparr>) (Resume False) =
   (crawl_s1 q)\<lparr>crawler := (crawl_c2 q)\<lparr>results := [], queue := [], waterfall := crawl_w2\<rparr>,
                yielded := [crawl_r0, crawl_r1], pc := YieldedInLoop, yieldedCount := Suc 0\<rparr>"
  by (simp add: crawl_s1_def crawl_c1_def crawl_c2_def new_Crawler_def crawl_eval Let_def)

lemma crawl_step6:
  "step dedup_api ((crawl_s1 q)\<lparr>crawler := (crawl_c2 q)\<lparr>results := [], queue := [],
                                                       waterfall := crawl_w2\<rparr>,
               yielded := [crawl_r0, crawl_r1], pc := YieldedInLoop, yieldedCount := Suc 0\<rparr>)
        (Resume False) =
   (crawl_s1 q)\<lparr>crawler := (crawl_c2 q)\<lparr>results := [], queue := [], waterfall := crawl_w2\<rparr>,
                yielded := [crawl_r0, crawl_r1], pc := Done, yieldedCount := 2\<rparr>"
  if "1 < q" "q \<le> 2"
  using that
  by (simp add: crawl_s1_def crawl_c1_def crawl_c2_def new_Crawler_def crawl_eval Let_def)

lemma crawl_run_eq:
  "crawl_run q =
     (crawl_s1 q)\<lparr>crawler := (crawl_c2 q)\<lparr>results := [], queue := [], waterfall := crawl_w2\<rparr>,
                  yielded := [crawl_r0, crawl_r1], pc := Done, yieldedCount := 2\<rparr>"
  if "1 < q" "q \<le> 2"
  using that
  by (simp add: crawl_run_def exec_def crawl_events_def crawl_step1 crawl_step2 crawl_step3 crawl_step4 crawl_step5 crawl_step6)

lemma negative_budget_run_eq:
  "negative_budget_run =
     new_Run (DEFAULT_OPTIONS\<lparr>maxPages := Num (- 5)\<rparr>) [''https://example.com/'']"
  by (simp add: negative_budget_run_def exec_def)

text \<open>The crawl with \<open>depth = -1\<close>, step by step.\<close>

lemma below_step1:
  "step dedup_api (new_Run below_opts [''https://example.com/'']) (Resume False) = below_s1"
  by (simp add: below_s1_def below_c1_def below_opts_def new_Run_def new_Crawler_def crawl_eval
        table_eval Let_def)

lemma below_step2:
  "step dedup_api below_s1 (TaskDone 0 crawl_env) =
   below_s1\<lparr>crawler := below_c1\<lparr>waterfall := crawl_w1, queue := [], results := [crawl_r0]\<rparr>\<rparr>"
  by (simp add: below_s1_def below_c1_def below_opts_def crawl_r0_def crawl_ex_def new_Crawler_def
        crawl_eval table_eval crawl_fetch1 [OF table_newURL(1)] Let_def)

lemma below_step3:
  "step dedup_api
     (below_s1\<lparr>crawler := below_c1\<lparr>waterfall := crawl_w1, queue := [], results := [crawl_r0]\<rparr>\<rparr>)
     (Resume False) =
   below_s1\<lparr>crawler := below_c1\<lparr>waterfall := crawl_w1, queue := [], results := []\<rparr>,
            yielded := [crawl_r0], pc := YieldedInLoop\<rparr>"
  by (simp add: below_s1_def below_c1_def below_opts_def new_Crawler_def crawl_eval Let_def)

lemma below_run_eq:
  "below_run =
     below_s1\<lparr>crawler := below_c1\<lparr>waterfall := crawl_w1, queue := [], results := []\<rparr>,
              yielded := [crawl_r0], pc := YieldedInLoop\<rparr>"
  by (simp add: below_run_def exec_def below_events_def below_step1 below_step2 below_step3)

text \<open>
  Claim C1 says that a crawl with \<open>maxPages = M\<close> never yields more than \<open>M\<close> results.
  \<open>maxPages\<close> is a number that nothing validates. With \<open>maxPages = 3/2\<close> the guard
  \<open>visited.size >= maxPages\<close> is false at sizes 0 and 1, so two URLs are admitted, and
  the small crawl yields two results, which is more than 3/2. With \<open>maxPages = -5\<close>, as
  \<open>--max-pages=-5\<close> configures it, no URL is admitted, and the 0 results are more than
  -5.
\<close>

theorem page_budget_counterexample:
  "maxPages (crawl_opts (3 / 2)) = Num (3 / 2) \<and>
   length (yielded (crawl_run (3 / 2))) = 2 \<and>
   \<not> js_le (num (length (yielded (crawl_run (3 / 2))))) (maxPages (crawl_opts (3 / 2))) \<and>
   maxPages (options (crawler negative_budget_run)) = Num (- 5) \<and>
   yielded negative_budget_run = [] \<and>
   \<not> js_le (num (length (yielded negative_budget_run)))
           (maxPages (options (crawler negative_budget_run)))"
proof -
  have y: "yielded (crawl_run (3 / 2)) = [crawl_r0, crawl_r1]" by (simp add: crawl_run_eq)
  have m: "maxPages (crawl_opts (3 / 2)) = Num (3 / 2)" by (simp add: crawl_opts_def)
  have n: "maxPages (options (crawler negative_budget_run)) = Num (- 5)"
    "yielded negative_budget_run = []"
    by (simp_all add: negative_budget_run_eq new_Run_def new_Crawler_def)
  from y m n show ?thesis by (simp add: num_def)
qed

theorem page_budget_witness:
  "maxPages (crawl_opts 2) = Num (of_nat 2) \<and>
   yielded (crawl_run 2) = [crawl_r0, crawl_r1] \<and>
   \<not> js_le (maxPages (crawl_opts 2)) (num (length (yielded (crawl_run 2)) - 1)) \<and>
   length (yielded (crawl_run 2)) \<le> 2 \<and>
   int (length (yielded (crawl_run 2))) \<le> max 0 \<lceil>2 :: rat\<rceil> \<and>
   yielded (exec dedup_api crawl_events
              (new_Run (DEFAULT_OPTIONS\<lparr>maxPages := NegInfinity\<rparr>) [''https://example.com/''])) = []"
proof -
  have y: "yielded (crawl_run 2) = [crawl_r0, crawl_r1]" by (simp add: crawl_run_eq)
  have m: "maxPages (crawl_opts 2) = Num (of_nat 2)" "maxPages (crawl_opts 2) = Num 2"
    by (simp_all add: crawl_opts_def)
  have i: "maxPages (DEFAULT_OPTIONS\<lparr>maxPages := NegInfinity\<rparr>) = NegInfinity" by simp
  from page_budget [where api = dedup_api and evs = crawl_events and opts = "crawl_opts 2"
         and urls = "[''https://example.com/'']" and m = 2 and q = 2] m y
  have a: "\<not> js_le (maxPages (crawl_opts 2)) (num (length (yielded (crawl_run 2)) - 1))"
    and b: "length (yielded (crawl_run 2)) \<le> 2"
    and c: "int (length (yielded (crawl_run 2))) \<le> max 0 \<lceil>2 :: rat\<rceil>"
    unfolding crawl_run_def [symmetric] by auto
  from page_budget [where api = dedup_api and evs = crawl_events
         and opts = "DEFAULT_OPTIONS\<lparr>maxPages := NegInfinity\<rparr>"
         and urls = "[''https://example.com/'']"] i
  have d: "yielded (exec dedup_api crawl_events
              (new_Run (DEFAULT_OPTIONS\<lparr>maxPages := NegInfinity\<rparr>) [''https://example.com/''])) = []"
    by blast
  from y m(1) a b c d show ?thesis by blast
qed

text \<open>
  Claim C2 says that a crawl with \<open>depth = N\<close> yields no result at a depth above \<open>N\<close>.
  \<open>depth\<close> is a number that nothing validates, and the seeds are queued at depth 0
  with no depth check. With \<open>depth = -1\<close>, as \<open>--depth=-1\<close> configures it, the crawl
  yields its seed, at depth 0, which is above -1.
\<close>

theorem depth_bound_counterexample:
  "depth below_opts = Num (- 1) \<and>
   yielded below_run = [crawl_r0] \<and>
   result_depth crawl_r0 = 0 \<and>
   js_lt (depth below_opts) (num (result_depth crawl_r0)) \<and>
   \<not> js_le (num (result_depth crawl_r0)) (depth below_opts)"
  by (simp add: below_run_eq below_opts_def crawl_r0_def num_def)

theorem depth_bound_witness:
  "depth (crawl_opts 2) = Num (of_nat 1) \<and>
   yielded (crawl_run 2) = [crawl_r0, crawl_r1] \<and>
   result_depth crawl_r1 = 1 \<and>
   result_depth crawl_r0 \<le> 1 \<and> result_depth crawl_r1 \<le> 1 \<and>
   depth below_opts = Num (- 1) \<and>
   yielded below_run = [crawl_r0] \<and>
   (of_nat (result_depth crawl_r0) :: rat) \<le> max (- 1) 0"
proof -
  have y: "yielded (crawl_run 2) = [crawl_r0, crawl_r1]" by (simp add: crawl_run_eq)
  have d: "depth (crawl_opts 2) = Num (of_nat 1)" by (simp add: crawl_opts_def)
  have r: "result_depth crawl_r1 = 1" by (simp add: crawl_r1_def)
  have yb: "yielded below_run = [crawl_r0]" by (simp add: below_run_eq)
  have db: "depth below_opts = Num (- 1)" by (simp add: below_opts_def)
  from depth_bound [where api = dedup_api and evs = crawl_events and opts = "crawl_opts 2"
         and urls = "[''https://example.com/'']" and n = 1]
  have "\<forall>x\<in>set (yielded (crawl_run 2)).
          depth (crawl_opts 2) = Num (of_nat 1) \<longrightarrow> result_depth x \<le> 1"
    unfolding crawl_run_def [symmetric] by blast
  with y d have a: "result_depth crawl_r0 \<le> 1" "result_depth crawl_r1 \<le> 1" by simp_all
  from depth_bound [where api = dedup_api and evs = below_events and opts = below_opts
         and urls = "[''https://example.com/'']" and q = "- 1"]
  have "\<forall>x\<in>set (yielded below_run).
          depth below_opts = Num (- 1) \<longrightarrow> (of_nat (result_depth x) :: rat) \<le> max (- 1) 0"
    unfolding below_run_def [symmetric] by blast
  with yb db have b: "(of_nat (result_depth crawl_r0) :: rat) \<le> max (- 1) 0" by simp
  from y d r a b yb db show ?thesis by blast
qed

lemma shouldSkip_twice:
  assumes "shouldSkip api t u = Inr (res, t1)"
  shows "\<exists>res2 t2. shouldSkip api t1 u = Inr (res2, t2) \<and>
           (skip res2 \<longleftrightarrow> skip res \<or> hasLocale (extractLocale api u))"
proof (cases "newURL api u")
  case None
  with assms show ?thesis by (simp add: shouldSkip_def Let_def)
next
  case (Some p)
  let ?li = "extractLocale api u"
  let ?key = "hostname p @ canonicalPath ?li"
  let ?rep = "\<lparr>url = u, rep_locale = locale_code ?li\<rparr>"
  show ?thesis
  proof (cases "skip res")
    case True
    with assms Some have t1: "t1 = snd (skipped t ?li)"
      by (auto simp: shouldSkip_def skipped_def Let_def split: option.splits if_splits)
    then have same: "canonicalPaths t1 = canonicalPaths t" "preferredLanguage t1 = preferredLanguage t"
      by (simp_all add: skipped_def)
    from assms Some True obtain existing where
      ex: "canonicalPaths t ?key = Some existing" and hl: "hasLocale ?li"
      and br: "language (extractLocale api (url existing)) = Some (preferredLanguage t) \<or>
               \<not> hasLocale (extractLocale api (url existing)) \<or>
               language ?li \<noteq> Some (preferredLanguage t)"
      by (auto simp: shouldSkip_def skipped_def Let_def split: option.splits if_splits)
    from Some ex hl br same have "shouldSkip api t1 u = Inr (skipped t1 ?li)"
      by (auto simp: shouldSkip_def Let_def)
    with True show ?thesis by (simp add: skipped_def)
  next
    case False
    with assms Some have cp: "canonicalPaths t1 ?key = Some ?rep"
      and pl: "preferredLanguage t1 = preferredLanguage t"
      by (auto simp: shouldSkip_def skipped_def Let_def split: option.splits if_splits)
    show ?thesis
    proof (cases "hasLocale ?li")
      case True
      with Some cp have "shouldSkip api t1 u = Inr (skipped t1 ?li)"
        by (simp add: shouldSkip_def Let_def)
      with True show ?thesis by (simp add: skipped_def)
    next
      case nl: False
      with Some cp have "\<exists>t2. shouldSkip api t1 u = Inr (\<lparr>skip = False, skip_reason = None\<rparr>, t2)"
        by (simp add: shouldSkip_def Let_def)
      with nl False show ?thesis by auto
    qed
  qed
qed

text \<open>A pattern without the \<open>g\<close> and the \<open>y\<close> flag is a pure test.\<close>

lemma regexp_test_plain:
  "\<not> advancing re \<Longrightarrow> regexp_test re s = (exec_at re 0 s \<noteq> None, re)"
  by (simp add: regexp_test_def)

lemma include_fails_plain:
  assumes "plain_patterns (options c)"
  shows "include_fails c u =
           ((case includePattern (options c) of None \<Rightarrow> False
             | Some re \<Rightarrow> exec_at re 0 u = None), c)"
proof (cases "includePattern (options c)")
  case None
  then show ?thesis by (simp add: include_fails_def)
next
  case (Some re)
  with assms have "\<not> advancing re" by (simp add: plain_patterns_def)
  then have t: "regexp_test re u = (exec_at re 0 u \<noteq> None, re)" by (rule regexp_test_plain)
  have "(options c)\<lparr>includePattern := Some re\<rparr> = options c" by (simp add: Some [symmetric])
  then have "c\<lparr>options := (options c)\<lparr>includePattern := Some re\<rparr>\<rparr> = c" by simp
  with Some t show ?thesis by (simp add: include_fails_def)
qed

lemma exclude_hits_plain:
  assumes "plain_patterns (options c)"
  shows "exclude_hits c u =
           ((case excludePattern (options c) of None \<Rightarrow> False
             | Some re \<Rightarrow> exec_at re 0 u \<noteq> None), c)"
proof (cases "excludePattern (options c)")
  case None
  then show ?thesis by (simp add: exclude_hits_def)
next
  case (Some re)
  with assms have "\<not> advancing re" by (simp add: plain_patterns_def)
  then have t: "regexp_test re u = (exec_at re 0 u \<noteq> None, re)" by (rule regexp_test_plain)
  have "(options c)\<lparr>excludePattern := Some re\<rparr> = options c" by (simp add: Some [symmetric])
  then have "c\<lparr>options := (options c)\<lparr>excludePattern := Some re\<rparr>\<rparr> = c" by simp
  with Some t show ?thesis by (simp add: exclude_hits_def)
qed

lemma shouldCrawl_unfold:
  fixes api c u d
  defines "F \<equiv> \<lambda>c. normalizeUrl api u \<in> set (visited c) \<or>
      js_le (maxPages (options c)) (num (length (visited c))) \<or>
      js_lt (depth (options c)) (num d) \<or>
      shouldSkipUrl api u \<or> getBaseDomain api u \<notin> set (baseHosts c) \<or>
      (respectRobots (options c) \<and> \<not> isAllowed api (robots c) u ''*'') \<or>
      (case includePattern (options c) of None \<Rightarrow> False | Some re \<Rightarrow> exec_at re 0 u = None) \<or>
      (case excludePattern (options c) of None \<Rightarrow> False | Some re \<Rightarrow> exec_at re 0 u \<noteq> None)"
  assumes "plain_patterns (options c)"
  shows "shouldCrawl api c u d =
     (if F c then (False, c)
      else (case shouldSkip api (dedup c) u of
              Inl e \<Rightarrow> (False, c)
            | Inr (dedupResult, t) \<Rightarrow>
                if skip dedupResult then (False, c\<lparr>dedup := t\<rparr>)
                else (True, c\<lparr>dedup := t\<rparr>)))"
    and "F (c\<lparr>dedup := t0\<rparr>) = F c"
  unfolding F_def
  using include_fails_plain [OF assms(2), of u] exclude_hits_plain [OF assms(2), of u]
  by (auto simp: shouldCrawl_def Let_def split: option.splits bool.splits)

lemma shouldCrawl_twice:
  assumes "plain_patterns (options c)"
    and "shouldCrawl api c u d = (b1, c1)" and "shouldCrawl api c1 u d = (b2, c2)"
  shows "b2 \<longleftrightarrow> b1 \<and> \<not> hasLocale (extractLocale api u)"
proof -
  have pl: "plain_patterns (options (c\<lparr>dedup := t\<rparr>))" for t using assms(1) by simp
  note un = shouldCrawl_unfold [OF assms(1), where api = api and u = u and d = d]
  show ?thesis
  proof (cases "shouldCrawl api c u d = (False, c)")
    case True
    with assms show ?thesis by simp
  next
    case False
    then obtain res t where sk: "shouldSkip api (dedup c) u = Inr (res, t)"
      and r1: "shouldCrawl api c u d = (\<not> skip res, c\<lparr>dedup := t\<rparr>)"
      unfolding un(1)
      by (auto split: if_splits sum.splits prod.splits)
    from False have pass: "shouldCrawl api (c\<lparr>dedup := t\<rparr>) u d =
        (case shouldSkip api t u of
              Inl e \<Rightarrow> (False, c\<lparr>dedup := t\<rparr>)
            | Inr (dedupResult, t') \<Rightarrow>
                if skip dedupResult then (False, c\<lparr>dedup := t'\<rparr>)
                else (True, c\<lparr>dedup := t'\<rparr>))"
      unfolding un(1) shouldCrawl_unfold(1) [OF pl, where api = api and u = u and d = d] un(2)
      by (auto split: if_splits sum.splits prod.splits)
    from shouldSkip_twice [OF sk] obtain res2 t2 where
      s2: "shouldSkip api t u = Inr (res2, t2)"
      and k: "skip res2 \<longleftrightarrow> skip res \<or> hasLocale (extractLocale api u)"
      by blast
    from pass s2 have "shouldCrawl api (c\<lparr>dedup := t\<rparr>) u d = (\<not> skip res2, c\<lparr>dedup := t2\<rparr>)"
      by simp
    with assms r1 k show ?thesis by auto
  qed
qed

lemma seeded_crawler_eq:
  "seeded_crawler =
     (new_Crawler DEFAULT_OPTIONS)\<lparr>baseHosts := [''example.com''],
        visited := [''https://example.com/''], queue := [(''https://example.com/'', 0)]\<rparr>"
  by (simp add: seeded_crawler_def exec_def new_Run_def new_Crawler_def crawl_eval table_eval Let_def)

lemma seeded_plain: "plain_patterns (options seeded_crawler)"
  by (simp add: seeded_crawler_eq new_Crawler_def DEFAULT_OPTIONS_def plain_patterns_def)

lemma seeded_docs_en: "fst (shouldCrawl dedup_api seeded_crawler docs_en 1)"
  by (simp add: seeded_crawler_eq new_Crawler_def crawl_eval table_eval Let_def)

lemma seeded_guide_plain: "fst (shouldCrawl dedup_api seeded_crawler guide_plain 1)"
  by (simp add: seeded_crawler_eq new_Crawler_def crawl_eval table_eval Let_def)

text \<open>
  Claim C3 says that two calls of \<open>shouldCrawl\<close> in succession, with the same visited
  set, give the same answer. The last check of \<open>shouldCrawl\<close> is the dedup tracker, which
  records the URL as it accepts it: the crawler that has queued its seed accepts
  \<open>https://example.com/en/docs\<close>, the visited set stays as it was, and the second call
  rejects the same URL as a locale variant of itself.
\<close>

theorem idempotent_admission_counterexample:
  "fst (shouldCrawl dedup_api seeded_crawler docs_en 1) \<and>
   visited (snd (shouldCrawl dedup_api seeded_crawler docs_en 1)) = visited seeded_crawler \<and>
   \<not> fst (shouldCrawl dedup_api (snd (shouldCrawl dedup_api seeded_crawler docs_en 1)) docs_en 1)"
proof -
  obtain b1 c1 where one: "shouldCrawl dedup_api seeded_crawler docs_en 1 = (b1, c1)"
    by (cases "shouldCrawl dedup_api seeded_crawler docs_en 1")
  obtain b2 c2 where two: "shouldCrawl dedup_api c1 docs_en 1 = (b2, c2)"
    by (cases "shouldCrawl dedup_api c1 docs_en 1")
  have "hasLocale (extractLocale dedup_api docs_en)" by (simp add: docs_en_def table_eval)
  with shouldCrawl_twice [OF seeded_plain one two] have "\<not> b2" by simp
  with one two seeded_docs_en shouldCrawl_frame(3) [OF one] show ?thesis by simp
qed

text \<open>
  The pattern checks are a second source of such answers: an include pattern with the
  \<open>g\<close> flag remembers where its last match ended. The crawler accepts
  \<open>https://example.com/docs/guide\<close>, in which no locale is detected, and rejects it in
  the next call, where the search for \<open>example\<close> starts behind the host name.
\<close>

lemma global_pattern_alternates:
  "fst (shouldCrawl dedup_api global_crawler guide_plain 1) \<and>
   visited (snd (shouldCrawl dedup_api global_crawler guide_plain 1)) = visited global_crawler \<and>
   \<not> hasLocale (extractLocale dedup_api guide_plain) \<and>
   \<not> fst (shouldCrawl dedup_api (snd (shouldCrawl dedup_api global_crawler guide_plain 1))
            guide_plain 1)"
  by (simp add: global_crawler_def global_example_def regexp_test_def seeded_crawler_eq
        new_Crawler_def crawl_eval table_eval Let_def)

text \<open>
  Claim C3, amended. Of two calls of \<open>shouldCrawl\<close> in succession on one URL, by a
  crawler whose patterns carry neither the \<open>g\<close> nor the \<open>y\<close> flag, the second accepts
  exactly when the first accepted and no locale is detected in the URL: a rejection is
  repeated, an acceptance is repeated for a URL without locale, and an accepted URL with a
  locale is rejected by the second call. A call of \<open>shouldCrawl\<close> leaves the visited set
  as it is. An accepted URL that is then queued is in the visited set, and from then on,
  whatever happens in the crawl, every admission attempt for it is rejected.
\<close>

theorem admission_twice:
  "(plain_patterns (options c) \<and>
    shouldCrawl api c u d = (b1, c1) \<and> shouldCrawl api c1 u d = (b2, c2) \<longrightarrow>
    (b2 \<longleftrightarrow> b1 \<and> \<not> hasLocale (extractLocale api u))) \<and>
   (shouldCrawl api c u d = (b1, c1) \<longrightarrow> visited c1 = visited c) \<and>
   (shouldCrawl api c u d = (True, c1) \<longrightarrow>
    normalizeUrl api u \<in> set (visited (addToQueue api c1 u d))) \<and>
   (normalizeUrl api u \<in> set (visited (crawler r)) \<longrightarrow>
    \<not> fst (shouldCrawl api (crawler (exec api evs r)) u d'))"
proof -
  have a: "b2 \<longleftrightarrow> b1 \<and> \<not> hasLocale (extractLocale api u)"
    if "plain_patterns (options c)" "shouldCrawl api c u d = (b1, c1)"
      "shouldCrawl api c1 u d = (b2, c2)"
    using shouldCrawl_twice [OF that] .
  have v: "visited c1 = visited c" if "shouldCrawl api c u d = (b1, c1)"
    using shouldCrawl_frame(3) [OF that] .
  have b: "normalizeUrl api u \<in> set (visited (addToQueue api c1 u d))"
    if t: "shouldCrawl api c u d = (True, c1)"
  proof -
    from shouldCrawl_True [OF t] shouldCrawl_frame [OF t]
    have "normalizeUrl api u \<notin> set (visited c1)"
      "\<not> js_le (maxPages (options c1)) (num (length (visited c1)))"
      by simp_all
    from addToQueue_accepted [OF this] show ?thesis by simp
  qed
  have c: "\<not> fst (shouldCrawl api (crawler (exec api evs r)) u d')"
    if "normalizeUrl api u \<in> set (visited (crawler r))"
  proof -
    from that exec_keeps [of api evs r]
    have "normalizeUrl api u \<in> set (visited (crawler (exec api evs r)))" by blast
    from shouldCrawl_visited [OF this] show ?thesis by simp
  qed
  from a v b c show ?thesis by blast
qed

theorem admission_twice_witness:
  "plain_patterns (options seeded_crawler) \<and>
   fst (shouldCrawl dedup_api seeded_crawler docs_en 1) \<and>
   hasLocale (extractLocale dedup_api docs_en) \<and>
   \<not> fst (shouldCrawl dedup_api (snd (shouldCrawl dedup_api seeded_crawler docs_en 1)) docs_en 1) \<and>
   fst (shouldCrawl dedup_api seeded_crawler guide_plain 1) \<and>
   visited (snd (shouldCrawl dedup_api seeded_crawler guide_plain 1)) = visited seeded_crawler \<and>
   fst (shouldCrawl dedup_api (snd (shouldCrawl dedup_api seeded_crawler guide_plain 1)) guide_plain 1) \<and>
   normalizeUrl dedup_api guide_plain \<in>
     set (visited (addToQueue dedup_api (snd (shouldCrawl dedup_api seeded_crawler guide_plain 1))
                     guide_plain 1)) \<and>
   \<not> fst (shouldCrawl dedup_api (crawler (exec dedup_api [] (crawl_run 2))) guide_plain 1)"
proof -
  obtain c1 where one: "shouldCrawl dedup_api seeded_crawler docs_en 1 = (True, c1)"
    using seeded_docs_en by (cases "shouldCrawl dedup_api seeded_crawler docs_en 1") simp
  obtain b2 c2 where two: "shouldCrawl dedup_api c1 docs_en 1 = (b2, c2)"
    by (cases "shouldCrawl dedup_api c1 docs_en 1")
  have loc: "hasLocale (extractLocale dedup_api docs_en)" by (simp add: docs_en_def table_eval)
  from admission_twice [where api = dedup_api and c = seeded_crawler and u = docs_en and d = 1
         and ?b1.0 = True and ?c1.0 = c1 and ?b2.0 = b2 and ?c2.0 = c2] one two loc seeded_plain
  have "\<not> b2" by blast
  with one two have first: "\<not> fst (shouldCrawl dedup_api (snd (shouldCrawl dedup_api seeded_crawler docs_en 1)) docs_en 1)"
    by simp
  obtain g1 where gone: "shouldCrawl dedup_api seeded_crawler guide_plain 1 = (True, g1)"
    using seeded_guide_plain by (cases "shouldCrawl dedup_api seeded_crawler guide_plain 1") simp
  obtain h2 g2 where gtwo: "shouldCrawl dedup_api g1 guide_plain 1 = (h2, g2)"
    by (cases "shouldCrawl dedup_api g1 guide_plain 1")
  have noloc: "\<not> hasLocale (extractLocale dedup_api guide_plain)"
    by (simp add: guide_plain_def table_eval)
  have vis: "normalizeUrl dedup_api guide_plain \<in> set (visited (crawler (crawl_run 2)))"
    by (simp add: crawl_run_eq crawl_c2_def guide_plain_def table_eval)
  from admission_twice [where api = dedup_api and c = seeded_crawler and u = guide_plain and d = 1
         and ?b1.0 = True and ?c1.0 = g1 and ?b2.0 = h2 and ?c2.0 = g2 and r = "crawl_run 2"
         and evs = "[]" and d' = 1] gone gtwo noloc vis seeded_plain
  have "h2" and "visited g1 = visited seeded_crawler"
    and "normalizeUrl dedup_api guide_plain \<in> set (visited (addToQueue dedup_api g1 guide_plain 1))"
    and "\<not> fst (shouldCrawl dedup_api (crawler (exec dedup_api [] (crawl_run 2))) guide_plain 1)"
    by blast+
  with gone gtwo first loc seeded_docs_en seeded_guide_plain seeded_plain show ?thesis by simp
qed

end
